theory Spec2Isabelle
  imports Complex_Main "HOL-Library.Word" "HOL-Library.Multiset"
begin

section \<open>Basic types\<close>

text \<open>
  The Go code works on \<^verbatim>\<open>uint64\<close> counters (view IDs, depths,
  balances, stakes, timestamps) and on 32-byte identifiers
  (\<^verbatim>\<open>common.AccountID\<close>,
  \<^verbatim>\<open>common.TransactionID\<close>, both
  \<^verbatim>\<open>[32]byte\<close>). A \<^verbatim>\<open>uint64\<close> is a
  \<open>64 word\<close>, so that \<open>+\<close> wraps as in Go; a 32-byte array is a
  \<open>256 word\<close>, whose zero is the all-zero array
  (\<^verbatim>\<open>common.ZeroAccountID\<close>,
  \<^verbatim>\<open>common.ZeroTransactionID\<close>).
\<close>

type_synonym u64 = "64 word"
type_synonym AccountID = "256 word"
type_synonym TransactionID = "256 word"

definition ZeroAccountID :: AccountID where
  "ZeroAccountID = 0"

definition ZeroTransactionID :: TransactionID where
  "ZeroTransactionID = 0"

text \<open>
  The fields of \<^verbatim>\<open>Transaction\<close> that the modelled functions read.
  The field \<^verbatim>\<open>ID\<close> is written \<open>TxID\<close>.
\<close>

record Transaction =
  TxID :: TransactionID
  Sender :: AccountID
  Creator :: AccountID
  ParentIDs :: "TransactionID list"
  ViewID :: u64
  depth :: u64
  Tag :: "8 word"
  Payload :: "8 word list"

text \<open>
  Errors of the modelled functions: the sentinels of the ledger's state machine, the
  error values built with
  \<^verbatim>\<open>errors.New\<close>/\<^verbatim>\<open>errors.Errorf\<close>, and a
  run-time panic (index out of range, nil dereference).
\<close>

datatype error =
    ErrStopped
  | ErrConsensusRoundFinished
  | ErrOutOfSync
  | ErrSyncFailed
  | ErrMissingAncestry
  | ErrNotEnoughFunds
  | ErrApply
  | InvalidDiff
  | Panic

section \<open>timestamp.go\<close>

text \<open>
  \<^verbatim>\<open>computeMedianTimestamp\<close> sorts its argument in place and
  returns the median. The model returns the median together with the final contents of
  the slice. On an empty slice the length is even and
  \<^verbatim>\<open>timestamps[len/2-1]\<close> is
  \<^verbatim>\<open>timestamps[-1]\<close>: a panic. Sorting
  \<^verbatim>\<open>uint64\<close> values by \<^verbatim>\<open><\<close> has one
  result, whatever the algorithm: the sorted list.
\<close>

definition computeMedianTimestamp :: "u64 list \<Rightarrow> error + (u64 \<times> u64 list)" where
  "computeMedianTimestamp timestamps =
     (let sorted_ts = sort timestamps;
          n = length sorted_ts
      in if n mod 2 = 0 then
           (if n = 0 then Inl Panic
            else Inr ((sorted_ts ! (n div 2 - 1)) div 2 + (sorted_ts ! (n div 2)) div 2, sorted_ts))
         else Inr (sorted_ts ! (n div 2), sorted_ts))"

text \<open>
  \<^verbatim>\<open>computeMeanTimestamp\<close>: the sum of
  \<^verbatim>\<open>timestamp / len\<close>, in \<^verbatim>\<open>uint64\<close>. The
  loop body never runs on an empty slice, so the division by zero never happens.
\<close>

definition computeMeanTimestamp :: "u64 list \<Rightarrow> u64" where
  "computeMeanTimestamp timestamps =
     fold (\<lambda>timestamp mean. mean + timestamp div of_nat (length timestamps)) timestamps 0"

section \<open>Ledger.ListTransactions\<close>

text \<open>
  The filter of the first loop of \<^verbatim>\<open>ListTransactions\<close>.
\<close>

definition matchesFilter :: "AccountID \<Rightarrow> AccountID \<Rightarrow> Transaction \<Rightarrow> bool" where
  "matchesFilter sender creator tx \<longleftrightarrow>
     (sender = ZeroAccountID \<and> creator = ZeroAccountID)
     \<or> (sender \<noteq> ZeroAccountID \<and> Sender tx = sender)
     \<or> (creator \<noteq> ZeroAccountID \<and> Creator tx = creator)"

text \<open>
  \<^verbatim>\<open>ListTransactions\<close>. The argument \<open>txs\<close> is the
  content of the map \<^verbatim>\<open>l.v.transactions\<close> in the order the
  \<^verbatim>\<open>range\<close> loop visits it (Go leaves that order open). The sort
  on \<^verbatim>\<open>depth\<close> is \<^verbatim>\<open>sort.Slice\<close>; the model
  takes the stable one of its possible results. A nil slice and an empty slice are both
  \<open>[]\<close>. \<^verbatim>\<open>offset+limit\<close> is a
  \<^verbatim>\<open>uint64\<close> sum and may wrap; the slice expression
  \<^verbatim>\<open>transactions[offset : offset+limit]\<close> panics when its bounds
  are not \<open>low \<le> high \<le> len\<close>.
\<close>

definition ListTransactions ::
  "u64 \<Rightarrow> u64 \<Rightarrow> AccountID \<Rightarrow> AccountID \<Rightarrow> Transaction list \<Rightarrow> error + Transaction list" where
  "ListTransactions offset limit sender creator txs =
     (let transactions = sort_key depth (filter (matchesFilter sender creator) txs);
          len = (of_nat (length transactions) :: u64)
      in if offset \<noteq> 0 \<or> limit \<noteq> 0 then
           (if offset \<ge> limit \<or> offset \<ge> len then Inr []
            else
              let limit' = (if offset + limit > len then len - offset else limit);
                  lo = unat offset;
                  hi = unat (offset + limit')
              in if lo \<le> hi \<and> hi \<le> length transactions
                 then Inr (take (hi - lo) (drop lo transactions))
                 else Inl Panic)
         else Inr transactions)"

section \<open>Example data\<close>

text \<open>
  A transaction for the concrete inputs of this development: identifier, sender (also its
  creator), parents and depth; the other fields are zero.
\<close>

definition exampleTx :: "TransactionID \<Rightarrow> AccountID \<Rightarrow> TransactionID list \<Rightarrow> u64 \<Rightarrow> Transaction" where
  "exampleTx i s ps d =
     \<lparr>TxID = i, Sender = s, Creator = s, ParentIDs = ps, ViewID = 0, depth = d, Tag = 0, Payload = []\<rparr>"

section \<open>Snowball\<close>

text \<open>
  Modelled from the spec: the Snowball engine. Its source file is not among the sources;
  the test \<^verbatim>\<open>snowball_test.go\<close> and the callers in the ledger are.
  The definitions follow section 4.4 of the specification. The candidates are
  transactions, identified by their ID. The stake-weighted tallies
  (\<^verbatim>\<open>float64\<close> in the code) are idealised as real numbers. The
  incoming counts of a tick are a finite map, given as an association list with one entry
  per ID.
\<close>

record Snowball =
  sampleSize :: nat
  alpha :: real
  beta :: nat
  preferred :: "Transaction option"
  lastID :: TransactionID
  progress :: nat
  counts :: "TransactionID \<rightharpoonup> real"
  candidates :: "TransactionID \<rightharpoonup> Transaction"
  decided :: bool

text \<open>The zero value of \<^verbatim>\<open>Transaction\<close>, read from a Go map at a missing key.\<close>

definition zeroTransaction :: Transaction where
  "zeroTransaction =
     \<lparr>TxID = 0, Sender = 0, Creator = 0, ParentIDs = [], ViewID = 0, depth = 0, Tag = 0, Payload = []\<rparr>"

definition NewSnowball :: "nat \<Rightarrow> real \<Rightarrow> nat \<Rightarrow> Snowball" where
  "NewSnowball K a b =
     \<lparr>sampleSize = K, alpha = a, beta = b, preferred = None, lastID = ZeroTransactionID, progress = 0,
      counts = Map.empty, candidates = Map.empty, decided = False\<rparr>"

text \<open>
  Modelled from the spec: \<^verbatim>\<open>Prefer(c)\<close> sets preferred to
  \<open>c\<close> if not yet decided; the counters stay.
\<close>

definition Prefer :: "Snowball \<Rightarrow> Transaction \<Rightarrow> Snowball" where
  "Prefer s c = (if decided s then s else s\<lparr>preferred := Some c\<rparr>)"

text \<open>
  Modelled from the spec: step 2 of \<^verbatim>\<open>Tick\<close>, the argmax of the
  incoming counts, ties broken by the lexicographic order of the IDs (the smaller ID
  wins).
\<close>

fun argmax :: "(TransactionID \<times> real) list \<Rightarrow> (TransactionID \<times> real) option" where
  "argmax [] = None"
| "argmax ((i, w) # rest) =
     (case argmax rest of
        None \<Rightarrow> Some (i, w)
      | Some (j, v) \<Rightarrow> if v < w \<or> (v = w \<and> i < j) then Some (i, w) else Some (j, v))"

text \<open>
  Modelled from the spec: the lifetime tally of an ID; an ID never tallied has none, which
  counts as 0.
\<close>

definition tally :: "Snowball \<Rightarrow> TransactionID \<Rightarrow> real" where
  "tally s i = (case counts s i of None \<Rightarrow> 0 | Some c \<Rightarrow> c)"

text \<open>
  Modelled from the spec: \<^verbatim>\<open>Tick(counts, candidates)\<close>, steps 1 to
  7. A tick with no counts has no argmax and is treated as a tick below
  \<open>\<alpha>\<close> (``nil ticks are harmless and reset the consecutive counter'').
\<close>

definition Tick ::
  "Snowball \<Rightarrow> (TransactionID \<times> real) list \<Rightarrow> (TransactionID \<rightharpoonup> Transaction) \<Rightarrow> Snowball" where
  "Tick s cs cands =
     (if decided s then s
      else case argmax cs of
        None \<Rightarrow> s\<lparr>progress := 0, lastID := ZeroTransactionID\<rparr>
      | Some (i, w) \<Rightarrow>
          if w < alpha s then s\<lparr>progress := 0, lastID := ZeroTransactionID\<rparr>
          else
            let s1 = (if i = lastID s then s\<lparr>progress := progress s + 1\<rparr>
                      else s\<lparr>progress := 1, lastID := i\<rparr>);
                c = (case cands i of None \<Rightarrow> zeroTransaction | Some c \<Rightarrow> c);
                s2 = s1\<lparr>counts := (counts s1)(i \<mapsto> tally s1 i + w),
                        candidates := (candidates s1)(i \<mapsto> c)\<rparr>;
                s3 = (if (case preferred s2 of None \<Rightarrow> 0 | Some p \<Rightarrow> tally s2 (TxID p)) < tally s2 i
                      then s2\<lparr>preferred := Some c\<rparr> else s2)
            in if beta s3 \<le> progress s3 then s3\<lparr>decided := True\<rparr> else s3)"

text \<open>
  Modelled from the spec: \<^verbatim>\<open>Reset()\<close> clears everything, including
  preferred; the parameters stay. \<^verbatim>\<open>Preferred()\<close>,
  \<^verbatim>\<open>Decided()\<close> and \<^verbatim>\<open>Progress()\<close> return
  the candidate or none, the flag, and the consecutive count.
\<close>

definition Reset :: "Snowball \<Rightarrow> Snowball" where
  "Reset s = s\<lparr>preferred := None, lastID := ZeroTransactionID, progress := 0,
               counts := Map.empty, candidates := Map.empty, decided := False\<rparr>"

definition Preferred :: "Snowball \<Rightarrow> Transaction option" where
  "Preferred s = preferred s"

definition Decided :: "Snowball \<Rightarrow> bool" where
  "Decided s = decided s"

definition Progress :: "Snowball \<Rightarrow> nat" where
  "Progress s = progress s"

section \<open>The ledger's state\<close>

text \<open>
  Modelled from the spec: the typed account views over the accounts tree
  (\<^verbatim>\<open>ReadAccountBalance\<close>,
  \<^verbatim>\<open>WriteAccountBalance\<close>,
  \<^verbatim>\<open>ReadAccountStake\<close>), whose source is not among the sources. A
  snapshot holds the balance and the stake of each account, as
  \<^verbatim>\<open>uint64\<close>, and the tree's view ID. A read returns the value and
  whether the key is present, with value 0 when it is not.
\<close>

record snapshot =
  accountBalance :: "AccountID \<rightharpoonup> u64"
  accountStake :: "AccountID \<rightharpoonup> u64"
  treeViewID :: u64

definition ReadAccountBalance :: "snapshot \<Rightarrow> AccountID \<Rightarrow> u64 \<times> bool" where
  "ReadAccountBalance ss a = (case accountBalance ss a of None \<Rightarrow> (0, False) | Some v \<Rightarrow> (v, True))"

definition WriteAccountBalance :: "snapshot \<Rightarrow> AccountID \<Rightarrow> u64 \<Rightarrow> snapshot" where
  "WriteAccountBalance ss a v = ss\<lparr>accountBalance := (accountBalance ss)(a \<mapsto> v)\<rparr>"

definition ReadAccountStake :: "snapshot \<Rightarrow> AccountID \<Rightarrow> u64 \<times> bool" where
  "ReadAccountStake ss a = (case accountStake ss a of None \<Rightarrow> (0, False) | Some v \<Rightarrow> (v, True))"

definition SetViewID :: "snapshot \<Rightarrow> u64 \<Rightarrow> snapshot" where
  "SetViewID ss v = ss\<lparr>treeViewID := v\<rparr>"

text \<open>
  The view-graph's transaction map \<^verbatim>\<open>l.v.transactions\<close> is finite:
  an association list, read with \<open>map_of\<close>, as
  \<^verbatim>\<open>lookupTransaction\<close> reads the map.
\<close>

type_synonym graph = "(TransactionID \<times> Transaction) list"

definition lookupTransaction :: "graph \<Rightarrow> TransactionID \<Rightarrow> Transaction option" where
  "lookupTransaction g i = map_of g i"

text \<open>
  The parts of \<^verbatim>\<open>Ledger\<close> that the modelled functions read and
  write: the graph's root, view ID and transactions (\<^verbatim>\<open>l.v\<close>), the
  accounts snapshot (\<^verbatim>\<open>l.a\<close>), and the two Snowball instances
  (\<^verbatim>\<open>l.cr\<close> for the round, \<^verbatim>\<open>l.sr\<close> for the
  sync target).
\<close>

record Ledger =
  root :: Transaction
  viewID :: u64
  transactions :: graph
  accounts :: snapshot
  cr :: Snowball
  sr :: Snowball

text \<open>
  What a \<^verbatim>\<open>select\<close> statement chose: the closed
  \<^verbatim>\<open>kill\<close> channel, the closed \<^verbatim>\<open>stop\<close>
  channel, or the communication on the event channel.
\<close>

datatype 'a selected = KillClosed | StopClosed | Chan 'a

section \<open>listenForQueries\<close>

record EventIncomingQuery =
  TX :: Transaction

text \<open>
  \<^verbatim>\<open>listenForQueries\<close>: the value sent on
  \<^verbatim>\<open>evt.Response\<close> (if any; \<open>None\<close> inside is the nil
  pointer) and the returned error.
\<close>

definition listenForQueries ::
  "Ledger \<Rightarrow> EventIncomingQuery selected \<Rightarrow> Transaction option option \<times> error option" where
  "listenForQueries l sel =
     (case sel of
        KillClosed \<Rightarrow> (None, Some ErrStopped)
      | StopClosed \<Rightarrow> (None, Some ErrStopped)
      | Chan evt \<Rightarrow>
          (Some (if ViewID (root l) \<noteq> 0 \<and> ViewID (TX evt) = ViewID (root l) then Some (root l)
                 else case Preferred (cr l) of Some p \<Rightarrow> Some p | None \<Rightarrow> None),
           if Preferred (cr l) = None then Some ErrConsensusRoundFinished else None))"

section \<open>checkIfOutOfSync\<close>

record VoteOutOfSync =
  Voter :: AccountID
  Root :: Transaction

text \<open>What the second \<^verbatim>\<open>select\<close> received: a value on \<^verbatim>\<open>evt.Error\<close> or the votes.\<close>

datatype outOfSyncReply = ReplyError | ReplyVotes "VoteOutOfSync list"

text \<open>\<^verbatim>\<open>counts[id] += w\<close> on a Go map, here an association list.\<close>

fun addCount :: "TransactionID \<Rightarrow> real \<Rightarrow> (TransactionID \<times> real) list \<Rightarrow> (TransactionID \<times> real) list" where
  "addCount i w [] = [(i, w)]"
| "addCount i w ((j, v) # rest) = (if i = j then (j, v + w) # rest else (j, v) # addCount i w rest)"

text \<open>
  The three loops over the votes and the tick of the sync Snowball.
  \<^verbatim>\<open>computeStakeDistribution\<close> is not among the sources: the
  parameter \<open>csd\<close> stands for it, from the voters to the weight of each
  account (0 for an account not in the map).
\<close>

definition tickOutOfSyncVotes ::
  "Snowball \<Rightarrow> (AccountID list \<Rightarrow> AccountID \<Rightarrow> real) \<Rightarrow> VoteOutOfSync list \<Rightarrow> Snowball" where
  "tickOutOfSyncVotes s csd votes =
     (let voters = map (\<lambda>vote. if TxID (Root vote) \<noteq> ZeroTransactionID then Voter vote else 0) votes;
          txs = fold (\<lambda>vote m. if TxID (Root vote) \<noteq> ZeroTransactionID
                                then m(TxID (Root vote) \<mapsto> Root vote) else m) votes Map.empty;
          weights = csd voters;
          cs = fold (\<lambda>vote c. if TxID (Root vote) \<noteq> ZeroTransactionID
                               then addCount (TxID (Root vote)) (weights (Voter vote)) c else c) votes []
      in Tick s cs txs)"

text \<open>
  \<^verbatim>\<open>checkIfOutOfSync\<close>: the returned error and the ledger
  afterwards. The first \<^verbatim>\<open>select\<close> sends the event, the second
  receives the reply. \<^verbatim>\<open>root.ID\<close> on a nil
  \<^verbatim>\<open>Preferred()\<close> is a nil dereference.
\<close>

definition checkIfOutOfSync ::
  "Ledger \<Rightarrow> (AccountID list \<Rightarrow> AccountID \<Rightarrow> real) \<Rightarrow> unit selected \<Rightarrow> outOfSyncReply selected
     \<Rightarrow> error option \<times> Ledger" where
  "checkIfOutOfSync l csd sent reply =
     (case sent of
        KillClosed \<Rightarrow> (Some ErrStopped, l)
      | StopClosed \<Rightarrow> (Some ErrStopped, l)
      | Chan _ \<Rightarrow>
          (case reply of
             KillClosed \<Rightarrow> (Some ErrStopped, l)
           | StopClosed \<Rightarrow> (Some ErrStopped, l)
           | Chan ReplyError \<Rightarrow> (None, l)
           | Chan (ReplyVotes votes) \<Rightarrow>
               if votes = [] then (None, l)
               else
                 let sr' = tickOutOfSyncVotes (sr l) csd votes
                 in if Decided sr' then
                      (case Preferred sr' of
                         None \<Rightarrow> (Some Panic, l\<lparr>sr := sr'\<rparr>)
                       | Some peer \<Rightarrow>
                           if TxID (root l) = TxID peer \<or> viewID l \<ge> ViewID peer + 1
                           then (None, l\<lparr>sr := Reset sr'\<rparr>)
                           else (Some ErrOutOfSync, l\<lparr>sr := sr'\<rparr>))
                    else (None, l\<lparr>sr := sr'\<rparr>)))"

section \<open>Example states\<close>

text \<open>Concrete states for the examples of this development.\<close>

definition emptySnapshot :: snapshot where
  "emptySnapshot = \<lparr>accountBalance = Map.empty, accountStake = Map.empty, treeViewID = 0\<rparr>"

definition unitWeights :: "AccountID list \<Rightarrow> AccountID \<Rightarrow> real" where
  "unitWeights voters a = 1"

definition exampleLedger :: "Transaction \<Rightarrow> u64 \<Rightarrow> Snowball \<Rightarrow> Snowball \<Rightarrow> Ledger" where
  "exampleLedger r v c s =
     \<lparr>root = r, viewID = v, transactions = [(TxID r, r)], accounts = emptySnapshot, cr = c, sr = s\<rparr>"

definition exampleSnowball :: Snowball where
  "exampleSnowball = NewSnowball 1 (1/2) 11"

definition exampleSyncSnowball :: Snowball where
  "exampleSyncSnowball = NewSnowball 1 (1/2) 1"

definition exampleLocalRoot :: Transaction where
  "exampleLocalRoot = (exampleTx 1 7 [] 0)\<lparr>ViewID := 4\<rparr>"

definition examplePeerRoot :: Transaction where
  "examplePeerRoot = (exampleTx 9 8 [] 3)\<lparr>ViewID := 5\<rparr>"

text \<open>
  Scenario ``Snowball unanimous'' of the specification: ticks for one candidate with
  weight 1.
\<close>

primrec exampleTicks :: "nat \<Rightarrow> Snowball \<Rightarrow> Snowball" where
  "exampleTicks 0 s = s"
| "exampleTicks (Suc n) s = Tick (exampleTicks n s) [(1, 1)] [1 \<mapsto> exampleTx 1 7 [] 0]"

section \<open>syncUp\<close>

text \<open>
  \<^verbatim>\<open>SyncInitMetadata\<close>; the field
  \<^verbatim>\<open>ViewID\<close> is written \<open>MetaViewID\<close>. A peer
  (\<^verbatim>\<open>protocol.ID\<close>) is identified by its address.
\<close>

type_synonym PeerID = string

record SyncInitMetadata =
  User :: PeerID
  MetaViewID :: u64
  ChunkHashes :: "256 word list"

text \<open>
  What the second \<^verbatim>\<open>select\<close> of \<^verbatim>\<open>syncUp\<close> received: a value on
  \<^verbatim>\<open>evt.Error\<close>, which is an error with its message or nil (a nil error sent, or
  the zero value of a closed channel), or the responses on \<^verbatim>\<open>evt.Result\<close>.
\<close>

datatype syncInitReply = InitError "string option" | InitResult "SyncInitMetadata list"

text \<open>
  The map \<^verbatim>\<open>votesByViewID\<close> after the grouping loop: the votes of
  each view ID, in the order of the responses. Its keys are the view IDs that occur.
\<close>

definition votesByViewID :: "SyncInitMetadata list \<Rightarrow> u64 \<Rightarrow> SyncInitMetadata list" where
  "votesByViewID votes v = filter (\<lambda>vote. MetaViewID vote = v) votes"

definition viewIDKeys :: "SyncInitMetadata list \<Rightarrow> u64 list" where
  "viewIDKeys votes = remdups (map MetaViewID votes)"

text \<open>
  The selection loop over the groups, with its \<^verbatim>\<open>break\<close>: the
  first group \<open>v\<close> with \<^verbatim>\<open>len(v) >= len(votes)*2/3\<close>
  sets \<^verbatim>\<open>selected = votes\<close>. \<open>None\<close> is the nil slice.
  Go leaves the order of the groups open; the loop's result does not depend on it.
\<close>

fun selectLoop :: "SyncInitMetadata list \<Rightarrow> SyncInitMetadata list list \<Rightarrow> SyncInitMetadata list option" where
  "selectLoop votes [] = None"
| "selectLoop votes (v # groups) =
     (if length v \<ge> length votes * 2 div 3 then Some votes else selectLoop votes groups)"

text \<open>
  \<^verbatim>\<open>syncUp\<close> up to the selection of the responders: the error it
  returns, or the slice \<^verbatim>\<open>selected\<close> with which it goes on to
  collect the chunk sources.  On a value received on \<^verbatim>\<open>evt.Error\<close> the code
  calls \<^verbatim>\<open>err.Error()\<close>: a nil dereference when the value is nil.
\<close>

definition syncUpSelect :: "unit selected \<Rightarrow> syncInitReply selected \<Rightarrow> error + SyncInitMetadata list" where
  "syncUpSelect sent reply =
     (case sent of
        KillClosed \<Rightarrow> Inl ErrStopped
      | StopClosed \<Rightarrow> Inl ErrStopped
      | Chan _ \<Rightarrow>
          (case reply of
             KillClosed \<Rightarrow> Inl ErrStopped
           | StopClosed \<Rightarrow> Inl ErrStopped
           | Chan (InitError None) \<Rightarrow> Inl Panic
           | Chan (InitError (Some msg)) \<Rightarrow> Inl ErrSyncFailed
           | Chan (InitResult votes) \<Rightarrow>
               (case selectLoop votes (map (votesByViewID votes) (viewIDKeys votes)) of
                  None \<Rightarrow> Inl ErrSyncFailed
                | Some selected \<Rightarrow> Inr selected)))"

definition exampleVote :: "PeerID \<Rightarrow> u64 \<Rightarrow> SyncInitMetadata" where
  "exampleVote u v = \<lparr>User = u, MetaViewID = v, ChunkHashes = []\<rparr>"

section \<open>rewardValidators\<close>

text \<open>
  The constants of the package \<^verbatim>\<open>sys\<close> that the modelled code
  reads. The package is not among the sources, so its constants are parameters.
\<close>

record sysParams =
  MaxEligibleParentsDepthDiff :: u64
  MinimumStake :: u64
  TransactionFeeAmount :: u64

text \<open>The messages that the modelled code logs.\<close>

datatype logEntry =
    LogTxFailed TransactionID
  | LogTxApplied TransactionID
  | LogRewardFailed error
  | LogRewarded AccountID AccountID

text \<open>
  The first loop of \<^verbatim>\<open>rewardValidators\<close>: every parent of
  \<open>tx\<close> found in the graph is pushed on the queue, and every parent ID is
  marked as visited.
\<close>

fun rewardInit ::
  "graph \<Rightarrow> TransactionID list \<Rightarrow> Transaction list \<times> TransactionID set
     \<Rightarrow> Transaction list \<times> TransactionID set" where
  "rewardInit g [] (q, visited) = (q, visited)"
| "rewardInit g (parentID # rest) (q, visited) =
     rewardInit g rest
       (case lookupTransaction g parentID of Some parent \<Rightarrow> q @ [parent] | None \<Rightarrow> q,
        insert parentID visited)"

text \<open>
  The loop over the parents of a popped transaction: a parent not seen before is pushed
  if the graph has it, and marked as visited.
\<close>

fun rewardVisit ::
  "graph \<Rightarrow> TransactionID list \<Rightarrow> Transaction list \<times> TransactionID set
     \<Rightarrow> Transaction list \<times> TransactionID set" where
  "rewardVisit g [] (q, visited) = (q, visited)"
| "rewardVisit g (parentID # rest) (q, visited) =
     (if parentID \<in> visited then rewardVisit g rest (q, visited)
      else rewardVisit g rest
             (case lookupTransaction g parentID of Some parent \<Rightarrow> q @ [parent] | None \<Rightarrow> q,
              insert parentID visited))"

text \<open>The unvisited IDs of the graph bound the work that is left.\<close>

definition unvisited :: "graph \<Rightarrow> TransactionID set \<Rightarrow> nat" where
  "unvisited g visited = card (fst ` set g - visited)"

lemma unvisited_insert_le: "unvisited g (insert p visited) \<le> unvisited g visited"
  unfolding unvisited_def by (rule card_mono) auto

lemma unvisited_insert_less:
  assumes "lookupTransaction g p = Some parent" and "p \<notin> visited"
  shows "unvisited g (insert p visited) < unvisited g visited"
proof -
  from assms(1) have "p \<in> fst ` set g"
    by (auto simp add: lookupTransaction_def dest: map_of_SomeD intro: rev_image_eqI)
  with assms(2) have "fst ` set g - insert p visited \<subset> fst ` set g - visited"
    by auto
  then show ?thesis
    unfolding unvisited_def by (intro psubset_card_mono) auto
qed

lemma rewardVisit_measure:
  "rewardVisit g ps (q, visited) = (q', visited')
     \<Longrightarrow> unvisited g visited' + length q' \<le> unvisited g visited + length q"
proof (induction ps arbitrary: q visited)
  case Nil
  then show ?case by simp
next
  case (Cons p ps)
  show ?case
  proof (cases "p \<in> visited")
    case True
    with Cons show ?thesis by simp
  next
    case False
    show ?thesis
    proof (cases "lookupTransaction g p")
      case None
      with False Cons.prems have "rewardVisit g ps (q, insert p visited) = (q', visited')"
        by simp
      from Cons.IH [OF this] unvisited_insert_le [of g p visited] show ?thesis
        by simp
    next
      case (Some parent)
      with False Cons.prems have "rewardVisit g ps (q @ [parent], insert p visited) = (q', visited')"
        by simp
      from Cons.IH [OF this] unvisited_insert_less [OF Some False] show ?thesis
        by simp
    qed
  qed
qed

text \<open>
  The filter of the main loop: a popped transaction is a candidate when its sender is not
  the sender of \<open>tx\<close> and its stake is greater than
  \<^verbatim>\<open>sys.MinimumStake\<close>. The accumulator holds
  \<^verbatim>\<open>candidates\<close>, \<^verbatim>\<open>stakes\<close> and
  \<^verbatim>\<open>totalStake\<close>; the sum of the stakes is a
  \<^verbatim>\<open>uint64\<close> sum.
\<close>

definition considerCandidate ::
  "sysParams \<Rightarrow> snapshot \<Rightarrow> Transaction \<Rightarrow> Transaction \<Rightarrow> Transaction list \<times> u64 list \<times> u64
     \<Rightarrow> Transaction list \<times> u64 list \<times> u64" where
  "considerCandidate params ss tx popped acc =
     (if Sender popped \<noteq> Sender tx then
        (let stake = fst (ReadAccountStake ss (Sender popped))
         in if stake > MinimumStake params
            then (case acc of (cands, stakes, totalStake) \<Rightarrow>
                    (cands @ [popped], stakes @ [stake], totalStake + stake))
            else acc)
      else acc)"

text \<open>
  The main loop of \<^verbatim>\<open>rewardValidators\<close>. A popped transaction
  beyond the depth limit is skipped (\<^verbatim>\<open>continue\<close>): it is no
  candidate and its parents are not visited.
\<close>

function rewardLoop ::
  "sysParams \<Rightarrow> graph \<Rightarrow> snapshot \<Rightarrow> Transaction \<Rightarrow> Transaction list \<Rightarrow> TransactionID set
     \<Rightarrow> Transaction list \<times> u64 list \<times> u64 \<Rightarrow> Transaction list \<times> u64 list \<times> u64" where
  "rewardLoop params g ss tx [] visited acc = acc"
| "rewardLoop params g ss tx (popped # rest) visited acc =
     (if depth popped + MaxEligibleParentsDepthDiff params < depth tx
      then rewardLoop params g ss tx rest visited acc
      else
        let qv = rewardVisit g (ParentIDs popped) (rest, visited)
        in rewardLoop params g ss tx (fst qv) (snd qv) (considerCandidate params ss tx popped acc))"
  by pat_completeness auto
termination
proof (relation "measure (\<lambda>(params, g, ss, tx, q, visited, acc). unvisited g visited + length q)")
  show "wf (measure (\<lambda>(params, g, ss, tx, q, visited, acc). unvisited g visited + length q))"
    by simp
next
  fix params :: sysParams and g :: graph and ss :: snapshot and tx popped :: Transaction
    and rest :: "Transaction list" and visited :: "TransactionID set"
    and acc :: "Transaction list \<times> u64 list \<times> u64"
  show "((params, g, ss, tx, rest, visited, acc), (params, g, ss, tx, popped # rest, visited, acc))
      \<in> measure (\<lambda>(params, g, ss, tx, q, visited, acc). unvisited g visited + length q)"
    by simp
next
  fix params :: sysParams and g :: graph and ss :: snapshot and tx popped :: Transaction
    and rest :: "Transaction list" and visited :: "TransactionID set"
    and acc :: "Transaction list \<times> u64 list \<times> u64"
    and qv :: "Transaction list \<times> TransactionID set"
  assume "qv = rewardVisit g (ParentIDs popped) (rest, visited)"
  then have "rewardVisit g (ParentIDs popped) (rest, visited) = (fst qv, snd qv)"
    by simp
  from rewardVisit_measure [OF this]
  show "((params, g, ss, tx, fst qv, snd qv, considerCandidate params ss tx popped acc),
         (params, g, ss, tx, popped # rest, visited, acc))
      \<in> measure (\<lambda>(params, g, ss, tx, q, visited, acc). unvisited g visited + length q)"
    by simp
qed

text \<open>The candidates, their stakes and the total stake that \<^verbatim>\<open>rewardValidators\<close> collects.\<close>

definition rewardCandidates ::
  "sysParams \<Rightarrow> graph \<Rightarrow> snapshot \<Rightarrow> Transaction \<Rightarrow> Transaction list \<times> u64 list \<times> u64" where
  "rewardCandidates params g ss tx =
     (let qv = rewardInit g (ParentIDs tx) ([], {})
      in rewardLoop params g ss tx (fst qv) (snd qv) ([], [], 0))"

text \<open>
  \<^verbatim>\<open>rewardValidators\<close>: the snapshot afterwards, the returned
  error and the log. The choice of the rewardee hashes the candidates' IDs (BLAKE2b) and
  compares sums of \<^verbatim>\<open>float64\<close> quotients with a threshold; the
  parameter \<open>pick\<close> stands for that loop and gives the index of the first
  candidate that reaches the threshold, if there is one. Without one, the last candidate
  is the rewardee. \<^verbatim>\<open>hasher.Write\<close> never fails.
\<close>

definition rewardValidators ::
  "sysParams \<Rightarrow> (Transaction list \<Rightarrow> u64 list \<Rightarrow> u64 \<Rightarrow> nat option) \<Rightarrow> graph \<Rightarrow> snapshot \<Rightarrow> Transaction
     \<Rightarrow> snapshot \<times> error option \<times> logEntry list" where
  "rewardValidators params pick g ss tx =
     (case rewardCandidates params g ss tx of (cands, stakes, totalStake) \<Rightarrow>
        if cands = [] \<or> length cands \<noteq> length stakes \<or> totalStake = 0 then (ss, None, [])
        else
          let rewardee = (case pick cands stakes totalStake of
                            Some i \<Rightarrow> if i < length cands then cands ! i else last cands
                          | None \<Rightarrow> last cands);
              senderBalance = fst (ReadAccountBalance ss (Sender tx));
              recipientBalance = fst (ReadAccountBalance ss (Sender rewardee));
              deducted = TransactionFeeAmount params
          in if senderBalance < deducted then (ss, Some ErrNotEnoughFunds, [])
             else
               (WriteAccountBalance (WriteAccountBalance ss (Sender tx) (senderBalance - deducted))
                  (Sender rewardee) (recipientBalance + deducted),
                None, [LogRewarded (Sender tx) (Sender rewardee)]))"

section \<open>collapseTransactions\<close>

text \<open>
  \<^verbatim>\<open>applyTransactionToSnapshot\<close>. The transaction context and the
  processors are not among the sources: the parameter \<open>procs\<close> stands for
  \<^verbatim>\<open>newTransactionContext(ss, tx).apply(l.processors)\<close> and gives
  the snapshot afterwards and the error, if any.
\<close>

type_synonym processors = "snapshot \<Rightarrow> Transaction \<Rightarrow> snapshot \<times> error option"

definition applyTransactionToSnapshot :: "processors \<Rightarrow> snapshot \<Rightarrow> Transaction \<Rightarrow> snapshot \<times> error option" where
  "applyTransactionToSnapshot procs ss tx = procs ss tx"

text \<open>
  The first loop of \<^verbatim>\<open>collapseTransactions\<close>, over the parents of
  \<open>tx\<close>: a parent that the graph has is pushed and marked; a missing one ends
  the function with an error.
\<close>

fun collapseInit ::
  "graph \<Rightarrow> TransactionID list \<Rightarrow> Transaction list \<times> TransactionID set
     \<Rightarrow> error + Transaction list \<times> TransactionID set" where
  "collapseInit g [] (q, visited) = Inr (q, visited)"
| "collapseInit g (parentID # rest) (q, visited) =
     (case lookupTransaction g parentID of
        Some parent \<Rightarrow> collapseInit g rest (q @ [parent], insert parentID visited)
      | None \<Rightarrow> Inl ErrMissingAncestry)"

text \<open>The loop over the parents of a popped transaction.\<close>

fun collapseVisit ::
  "graph \<Rightarrow> TransactionID list \<Rightarrow> Transaction list \<times> TransactionID set
     \<Rightarrow> error + Transaction list \<times> TransactionID set" where
  "collapseVisit g [] (q, visited) = Inr (q, visited)"
| "collapseVisit g (parentID # rest) (q, visited) =
     (if parentID \<in> visited then collapseVisit g rest (q, visited)
      else case lookupTransaction g parentID of
             Some parent \<Rightarrow> collapseVisit g rest (q @ [parent], insert parentID visited)
           | None \<Rightarrow> Inl ErrMissingAncestry)"

lemma collapseVisit_measure:
  "collapseVisit g ps (q, visited) = Inr (q', visited')
     \<Longrightarrow> unvisited g visited' + length q' \<le> unvisited g visited + length q"
proof (induction ps arbitrary: q visited)
  case Nil
  then show ?case by simp
next
  case (Cons p ps)
  show ?case
  proof (cases "p \<in> visited")
    case True
    with Cons show ?thesis by simp
  next
    case False
    with Cons.prems obtain parent where found: "lookupTransaction g p = Some parent"
      and "collapseVisit g ps (q @ [parent], insert p visited) = Inr (q', visited')"
      by (auto split: option.splits)
    from Cons.IH [OF this(2)] unvisited_insert_less [OF found False] show ?thesis
      by simp
  qed
qed

text \<open>
  The breadth-first loop: it pops a transaction, visits its parents and pushes the
  transaction on the apply queue.
\<close>

function collapseLoop ::
  "graph \<Rightarrow> Transaction list \<Rightarrow> TransactionID set \<Rightarrow> Transaction list \<Rightarrow> error + Transaction list" where
  "collapseLoop g [] visited applyQueue = Inr applyQueue"
| "collapseLoop g (popped # rest) visited applyQueue =
     (case collapseVisit g (ParentIDs popped) (rest, visited) of
        Inl err \<Rightarrow> Inl err
      | Inr qv \<Rightarrow> collapseLoop g (fst qv) (snd qv) (applyQueue @ [popped]))"
  by pat_completeness auto
termination
proof (relation "measure (\<lambda>(g, q, visited, applyQueue). unvisited g visited + length q)")
  show "wf (measure (\<lambda>(g, q, visited, applyQueue). unvisited g visited + length q))"
    by simp
next
  fix g :: graph and popped :: Transaction and rest applyQueue :: "Transaction list"
    and visited :: "TransactionID set" and qv :: "Transaction list \<times> TransactionID set"
  assume "collapseVisit g (ParentIDs popped) (rest, visited) = Inr qv"
  then have "collapseVisit g (ParentIDs popped) (rest, visited) = Inr (fst qv, snd qv)"
    by simp
  from collapseVisit_measure [OF this]
  show "((g, fst qv, snd qv, applyQueue @ [popped]), (g, popped # rest, visited, applyQueue))
      \<in> measure (\<lambda>(g, q, visited, applyQueue). unvisited g visited + length q)"
    by simp
qed

text \<open>
  The body of the apply loop for one popped transaction: the application, whose error is
  only logged, and then the reward, whose error is only logged.  The messages of the
  function itself are written when \<open>logging\<close> is set.
\<close>

definition collapseStep ::
  "sysParams \<Rightarrow> processors \<Rightarrow> (Transaction list \<Rightarrow> u64 list \<Rightarrow> u64 \<Rightarrow> nat option) \<Rightarrow> graph \<Rightarrow> bool
     \<Rightarrow> snapshot \<times> logEntry list \<Rightarrow> Transaction \<Rightarrow> snapshot \<times> logEntry list" where
  "collapseStep params procs pick g logging st popped =
     (case st of (ss, logs) \<Rightarrow>
        case applyTransactionToSnapshot procs ss popped of (ss1, applyErr) \<Rightarrow>
          let logs1 = logs @ (if logging
                              then [case applyErr of Some err \<Rightarrow> LogTxFailed (TxID popped)
                                                   | None \<Rightarrow> LogTxApplied (TxID popped)]
                              else [])
          in case rewardValidators params pick g ss1 popped of (ss2, rewardErr, rewardLogs) \<Rightarrow>
               (ss2, logs1 @ rewardLogs
                     @ (case rewardErr of Some err \<Rightarrow> if logging then [LogRewardFailed err] else []
                                        | None \<Rightarrow> [])))"

text \<open>
  \<^verbatim>\<open>collapseTransactions\<close>: the returned snapshot, the returned
  error and the log. The apply queue is emptied from its back.
\<close>

definition collapseTransactions ::
  "sysParams \<Rightarrow> processors \<Rightarrow> (Transaction list \<Rightarrow> u64 list \<Rightarrow> u64 \<Rightarrow> nat option) \<Rightarrow> Ledger
     \<Rightarrow> Transaction \<Rightarrow> bool \<Rightarrow> snapshot \<times> error option \<times> logEntry list" where
  "collapseTransactions params procs pick l tx logging =
     (let ss = SetViewID (accounts l) (ViewID (root l) + 1)
      in case collapseInit (transactions l) (ParentIDs tx) ([], {TxID (root l)}) of
           Inl err \<Rightarrow> (ss, Some err, [])
         | Inr qv \<Rightarrow>
             (case collapseLoop (transactions l) (fst qv) (snd qv) [] of
                Inl err \<Rightarrow> (ss, Some err, [])
              | Inr applyQueue \<Rightarrow>
                  (case foldl (collapseStep params procs pick (transactions l) logging) (ss, [])
                          (rev applyQueue) of
                     (ss', logs) \<Rightarrow> (ss', None, logs))))"

text \<open>
  The IDs that \<^verbatim>\<open>collapseTransactions\<close> walks through: the parents
  of \<open>tx\<close>, and the parents, other than the root, of every walked transaction
  that the graph has.
\<close>

inductive ancestry :: "graph \<Rightarrow> TransactionID \<Rightarrow> Transaction \<Rightarrow> TransactionID \<Rightarrow> bool"
  for g :: graph and rootID :: TransactionID and tx :: Transaction where
  parent: "p \<in> set (ParentIDs tx) \<Longrightarrow> ancestry g rootID tx p"
| grandparent: "ancestry g rootID tx i \<Longrightarrow> lookupTransaction g i = Some b
      \<Longrightarrow> p \<in> set (ParentIDs b) \<Longrightarrow> p \<noteq> rootID \<Longrightarrow> ancestry g rootID tx p"

text \<open>
  The IDs that \<^verbatim>\<open>rewardValidators\<close> walks through: the parents of
  \<open>tx\<close>, and the parents of every walked transaction that the graph has and
  that is within the depth limit.
\<close>

definition withinDepth :: "sysParams \<Rightarrow> Transaction \<Rightarrow> Transaction \<Rightarrow> bool" where
  "withinDepth params tx a \<longleftrightarrow> \<not> depth a + MaxEligibleParentsDepthDiff params < depth tx"

inductive rewardWalk :: "sysParams \<Rightarrow> graph \<Rightarrow> Transaction \<Rightarrow> TransactionID \<Rightarrow> bool"
  for params :: sysParams and g :: graph and tx :: Transaction where
  parent: "p \<in> set (ParentIDs tx) \<Longrightarrow> rewardWalk params g tx p"
| grandparent: "rewardWalk params g tx i \<Longrightarrow> lookupTransaction g i = Some b
      \<Longrightarrow> withinDepth params tx b \<Longrightarrow> p \<in> set (ParentIDs b) \<Longrightarrow> rewardWalk params g tx p"

text \<open>The test that makes a walked transaction a candidate.\<close>

definition eligible :: "sysParams \<Rightarrow> snapshot \<Rightarrow> Transaction \<Rightarrow> Transaction \<Rightarrow> bool" where
  "eligible params ss tx a \<longleftrightarrow>
     withinDepth params tx a \<and> Sender a \<noteq> Sender tx
     \<and> MinimumStake params < fst (ReadAccountStake ss (Sender a))"

text \<open>
  The loop's invariant: the parents of \<open>tx\<close> are visited, and a visited
  transaction of the graph that is no longer on the queue has been handled: its parents
  are visited if it is within the depth limit, and it is among the candidates if it is
  eligible.
\<close>

definition handled ::
  "sysParams \<Rightarrow> graph \<Rightarrow> snapshot \<Rightarrow> Transaction \<Rightarrow> Transaction list \<Rightarrow> TransactionID set
     \<Rightarrow> Transaction list \<Rightarrow> bool" where
  "handled params g ss tx q visited cands \<longleftrightarrow>
     set (ParentIDs tx) \<subseteq> visited
     \<and> (\<forall>i b. i \<in> visited \<and> lookupTransaction g i = Some b \<and> b \<notin> set q \<longrightarrow>
           (withinDepth params tx b \<longrightarrow> set (ParentIDs b) \<subseteq> visited)
           \<and> (eligible params ss tx b \<longrightarrow> b \<in> set cands))"


section \<open>Example graph\<close>

text \<open>
  A graph of a root (ID 1, sender 7), a transaction 2 of sender 8 on the root, and a
  transaction 3 of sender 9 on both; the transaction 4 of sender 7, on 3, is the one to
  collapse.  The parameters are a depth limit of 5, a minimum stake of 100 and a fee
  of 2.
\<close>

definition exampleGraph :: graph where
  "exampleGraph = [(1, exampleTx 1 7 [] 0), (2, exampleTx 2 8 [1] 1), (3, exampleTx 3 9 [1, 2] 2)]"

definition exampleCritical :: Transaction where
  "exampleCritical = exampleTx 4 7 [3] 3"

definition exampleParams :: sysParams where
  "exampleParams = \<lparr>MaxEligibleParentsDepthDiff = 5, MinimumStake = 100, TransactionFeeAmount = 2\<rparr>"

definition exampleAccounts :: "(AccountID \<rightharpoonup> u64) \<Rightarrow> (AccountID \<rightharpoonup> u64) \<Rightarrow> snapshot" where
  "exampleAccounts b s = \<lparr>accountBalance = b, accountStake = s, treeViewID = 0\<rparr>"

definition exampleCollapseLedger :: "snapshot \<Rightarrow> Ledger" where
  "exampleCollapseLedger ss =
     \<lparr>root = exampleTx 1 7 [] 0, viewID = 1, transactions = exampleGraph, accounts = ss,
      cr = exampleSnowball, sr = exampleSyncSnowball\<rparr>"

text \<open>A processor that fails on every transaction and leaves the snapshot as it is.\<close>

definition failingProcessor :: processors where
  "failingProcessor ss tx = (ss, Some ErrApply)"

text \<open>
  A processor that gives one unit of the sender's balance to the account 5, and fails
  when the sender has none.
\<close>

definition givingProcessor :: processors where
  "givingProcessor ss tx =
     (let senderBalance = fst (ReadAccountBalance ss (Sender tx));
          recipientBalance = fst (ReadAccountBalance ss 5)
      in if senderBalance < 1 then (ss, Some ErrApply)
         else (WriteAccountBalance (WriteAccountBalance ss (Sender tx) (senderBalance - 1))
                 5 (recipientBalance + 1), None))"


text \<open>A choice of the rewardee in which no candidate reaches the threshold.\<close>

definition pickNone :: "Transaction list \<Rightarrow> u64 list \<Rightarrow> u64 \<Rightarrow> nat option" where
  "pickNone cands stakes totalStake = None"

section \<open>The Merkle AVL tree and its diffs\<close>

text \<open>
  Modelled from the spec: the tree of package \<^verbatim>\<open>avl\<close>, of which
  only the tests are among the sources; \<^verbatim>\<open>DumpDiff\<close> and
  \<^verbatim>\<open>ApplyDiff\<close> are missing. The definitions follow sections 3 and
  4.1 of the specification. A node holds a key and the view ID at which it was last
  modified; a leaf holds a value, an inner node two children. A node is serialised as its
  kind, key, value (leaf) or child hashes (inner node), subtree size and view ID, and its
  hash is the hash of the serialisation; the hash function (BLAKE2b-256) is the parameter
  \<open>h\<close>. The root's hash is the checksum.
\<close>

type_synonym bytes = "8 word list"
type_synonym merkleHash = "256 word"

datatype node =
    Leaf u64 bytes bytes
  | Inner u64 bytes node node

datatype serialized =
    SerLeaf bytes bytes nat u64
  | SerInner bytes merkleHash merkleHash nat u64

record Tree =
  treeRoot :: "node option"
  viewIDOfTree :: u64

fun nodeViewID :: "node \<Rightarrow> u64" where
  "nodeViewID (Leaf v key val) = v"
| "nodeViewID (Inner v key l r) = v"

fun nodeSize :: "node \<Rightarrow> nat" where
  "nodeSize (Leaf v key val) = 1"
| "nodeSize (Inner v key l r) = nodeSize l + nodeSize r"

fun serialize :: "(serialized \<Rightarrow> merkleHash) \<Rightarrow> node \<Rightarrow> serialized" where
  "serialize h (Leaf v key val) = SerLeaf key val 1 v"
| "serialize h (Inner v key l r) =
     SerInner key (h (serialize h l)) (h (serialize h r)) (nodeSize l + nodeSize r) v"

definition nodeID :: "(serialized \<Rightarrow> merkleHash) \<Rightarrow> node \<Rightarrow> merkleHash" where
  "nodeID h n = h (serialize h n)"

definition Checksum :: "(serialized \<Rightarrow> merkleHash) \<Rightarrow> Tree \<Rightarrow> merkleHash" where
  "Checksum h t = (case treeRoot t of None \<Rightarrow> 0 | Some n \<Rightarrow> nodeID h n)"

text \<open>
  Modelled from the spec: the contents of a tree, its key-value pairs in the order of the
  leaves.
\<close>

fun nodeContents :: "node \<Rightarrow> (bytes \<times> bytes) list" where
  "nodeContents (Leaf v key val) = [(key, val)]"
| "nodeContents (Inner v key l r) = nodeContents l @ nodeContents r"

definition treeContents :: "Tree \<Rightarrow> (bytes \<times> bytes) list" where
  "treeContents t = (case treeRoot t of None \<Rightarrow> [] | Some n \<Rightarrow> nodeContents n)"

text \<open>
  Modelled from the spec: \<^verbatim>\<open>SetViewID\<close> of a tree sets the tree's
  view ID; the nodes keep their stamps.
\<close>

definition SetViewID_tree :: "Tree \<Rightarrow> u64 \<Rightarrow> Tree" where
  "SetViewID_tree t v = t\<lparr>viewIDOfTree := v\<rparr>"

text \<open>
  Modelled from the spec: the view ID of the last change of the content, the greatest
  stamp of a node (every mutated node is stamped with the tree's view ID at the time).
\<close>

fun lastModified :: "node \<Rightarrow> u64" where
  "lastModified (Leaf v key val) = v"
| "lastModified (Inner v key l r) = max v (max (lastModified l) (lastModified r))"

definition lastContentChange :: "Tree \<Rightarrow> u64" where
  "lastContentChange t = (case treeRoot t of None \<Rightarrow> 0 | Some n \<Rightarrow> lastModified n)"

text \<open>
  Modelled from the spec: \<^verbatim>\<open>DumpDiff(since)\<close> ``walks the tree
  depth-first and emits any subtree whose root view-ID exceeds \<open>since\<close>; it
  prunes descent into subtrees whose root view-ID is at most \<open>since\<close>''. The
  diff is the sequence of the emitted serialised nodes.
\<close>

fun dumpNode :: "(serialized \<Rightarrow> merkleHash) \<Rightarrow> u64 \<Rightarrow> node \<Rightarrow> serialized list" where
  "dumpNode h since (Leaf v key val) =
     (if v \<le> since then [] else [serialize h (Leaf v key val)])"
| "dumpNode h since (Inner v key l r) =
     (if v \<le> since then []
      else serialize h (Inner v key l r) # dumpNode h since l @ dumpNode h since r)"

definition DumpDiff :: "(serialized \<Rightarrow> merkleHash) \<Rightarrow> Tree \<Rightarrow> u64 \<Rightarrow> serialized list" where
  "DumpDiff h t since = (case treeRoot t of None \<Rightarrow> [] | Some n \<Rightarrow> dumpNode h since n)"

text \<open>
  Modelled from the spec: the subtree of the local tree with a given hash, from which a
  pruned subtree is grafted.
\<close>

fun findNode :: "(serialized \<Rightarrow> merkleHash) \<Rightarrow> merkleHash \<Rightarrow> node \<Rightarrow> node option" where
  "findNode h i (Leaf v key val) = (if nodeID h (Leaf v key val) = i then Some (Leaf v key val) else None)"
| "findNode h i (Inner v key l r) =
     (if nodeID h (Inner v key l r) = i then Some (Inner v key l r)
      else case findNode h i l of Some n \<Rightarrow> Some n | None \<Rightarrow> findNode h i r)"

text \<open>
  Modelled from the spec: \<^verbatim>\<open>ApplyDiff\<close> ``reconstructs those
  subtrees, grafts them in''. The node with the expected hash is read from the front of
  the diff, and its children after it; a subtree that the diff does not hold is taken
  from the local tree by its hash; a hash found in neither makes the diff malformed. The
  recursion is bounded by the number of the entries still to read.
\<close>

fun reconstruct ::
  "(serialized \<Rightarrow> merkleHash) \<Rightarrow> node option \<Rightarrow> nat \<Rightarrow> merkleHash \<Rightarrow> serialized list
     \<Rightarrow> (node \<times> serialized list) option" where
  "reconstruct h local 0 i diff =
     (case local of None \<Rightarrow> None
      | Some n \<Rightarrow> (case findNode h i n of None \<Rightarrow> None | Some found \<Rightarrow> Some (found, diff)))"
| "reconstruct h local (Suc fuel) i diff =
     (case diff of
        SerLeaf key val sz v # rest \<Rightarrow>
          if h (SerLeaf key val sz v) = i then Some (Leaf v key val, rest)
          else reconstruct h local 0 i diff
      | SerInner key li ri sz v # rest \<Rightarrow>
          if h (SerInner key li ri sz v) = i then
            (case reconstruct h local fuel li rest of
               None \<Rightarrow> None
             | Some (l, rest') \<Rightarrow>
                 (case reconstruct h local fuel ri rest' of
                    None \<Rightarrow> None
                  | Some (r, rest'') \<Rightarrow> Some (Inner v key l r, rest'')))
          else reconstruct h local 0 i diff
      | [] \<Rightarrow> reconstruct h local 0 i diff)"

fun serializedViewID :: "serialized \<Rightarrow> u64" where
  "serializedViewID (SerLeaf key val sz v) = v"
| "serializedViewID (SerInner key li ri sz v) = v"

text \<open>
  Modelled from the spec: \<^verbatim>\<open>ApplyDiff\<close>; ``an empty diff is a
  valid no-op'', otherwise the first entry is the new root, and the tree takes its view
  ID; a malformed diff fails with \<^verbatim>\<open>InvalidDiff\<close>.
\<close>

definition ApplyDiff :: "(serialized \<Rightarrow> merkleHash) \<Rightarrow> Tree \<Rightarrow> serialized list \<Rightarrow> error + Tree" where
  "ApplyDiff h t diff =
     (case diff of
        [] \<Rightarrow> Inr t
      | e # rest \<Rightarrow>
          (case reconstruct h (treeRoot t) (length diff) (h e) diff of
             Some (n, []) \<Rightarrow> Inr \<lparr>treeRoot = Some n, viewIDOfTree = serializedViewID e\<rparr>
           | _ \<Rightarrow> Inl InvalidDiff))"

text \<open>
  Example trees: the first holds \<open>a = b\<close>, stamped at view 0, and
  \<open>b = c\<close>, stamped at view 1 like the root; the second holds
  \<open>a = b\<close> alone. The example hash stands for BLAKE2b-256.
\<close>

definition exampleHash :: "serialized \<Rightarrow> merkleHash" where
  "exampleHash s =
     (case s of
        SerLeaf key val sz v \<Rightarrow> 1 + 2 * ucast (foldr (+) (key @ val) 0) + 512 * ucast v
      | SerInner key li ri sz v \<Rightarrow> 3 * li + 5 * ri + 512 * ucast v)"

definition exampleTree1 :: Tree where
  "exampleTree1 = \<lparr>treeRoot = Some (Inner 1 [98] (Leaf 0 [97] [98]) (Leaf 1 [98] [99])), viewIDOfTree = 1\<rparr>"

definition exampleTree2 :: Tree where
  "exampleTree2 = \<lparr>treeRoot = Some (Leaf 0 [97] [98]), viewIDOfTree = 0\<rparr>"

section \<open>Properties of timestamp.go\<close>

lemma unat_half_sum:
  fixes a b :: u64
  shows "unat (a div 2 + b div 2) = unat a div 2 + unat b div 2"
proof -
  have a: "unat a < 2 ^ 64" and b: "unat b < 2 ^ 64"
    using unsigned_less [of a] unsigned_less [of b] by simp_all
  have "unat (a div 2) + unat (b div 2) < 2 ^ LENGTH(64)"
    using a b by (simp add: unat_div)
  then have "unat (a div 2 + b div 2) = unat (a div 2) + unat (b div 2)"
    by (simp only: unat_add_lem [THEN iffD1])
  then show ?thesis by (simp add: unat_div)
qed

lemma half_sum_bounds:
  fixes x y :: nat
  shows "x div 2 + y div 2 \<le> (x + y) div 2" and "(x + y) div 2 \<le> x div 2 + y div 2 + 1"
  by arith+

text \<open>
  Claim C10. For every non-empty list of timestamps,
  \<^verbatim>\<open>computeMedianTimestamp\<close> returns (without wrap-around) the
  middle element of the sorted list when the length \<open>n\<close> is odd, and
  \<open>t[n/2-1] div 2 + t[n/2] div 2\<close> of the sorted list when \<open>n\<close>
  is even. That value is the floor of the average of the two middle elements or one less,
  and on \<open>[1, 3]\<close> it is one less (1 instead of 2). The slice is left sorted:
  the final slice is the sorted permutation of the input.
\<close>

theorem computeMedianTimestamp_median:
  "(timestamps \<noteq> [] \<longrightarrow>
      (\<exists>m s. computeMedianTimestamp timestamps = Inr (m, s)
         \<and> s = sort timestamps \<and> sorted s \<and> mset s = mset timestamps
         \<and> (odd (length timestamps) \<longrightarrow> m = s ! (length timestamps div 2))
         \<and> (even (length timestamps) \<longrightarrow>
              unat m = unat (s ! (length timestamps div 2 - 1)) div 2
                     + unat (s ! (length timestamps div 2)) div 2
              \<and> unat m \<le> (unat (s ! (length timestamps div 2 - 1))
                           + unat (s ! (length timestamps div 2))) div 2
              \<and> (unat (s ! (length timestamps div 2 - 1))
                   + unat (s ! (length timestamps div 2))) div 2 \<le> unat m + 1)))
   \<and> (\<exists>m s. computeMedianTimestamp [1, 3] = Inr (m, s)
         \<and> unat m + 1 = (unat (s ! 0) + unat (s ! 1)) div 2)"
proof (intro conjI impI)
  assume ne: "timestamps \<noteq> []"
  let ?s = "sort timestamps"
  let ?n = "length timestamps"
  show "\<exists>m s. computeMedianTimestamp timestamps = Inr (m, s)
         \<and> s = sort timestamps \<and> sorted s \<and> mset s = mset timestamps
         \<and> (odd (length timestamps) \<longrightarrow> m = s ! (length timestamps div 2))
         \<and> (even (length timestamps) \<longrightarrow>
              unat m = unat (s ! (length timestamps div 2 - 1)) div 2
                     + unat (s ! (length timestamps div 2)) div 2
              \<and> unat m \<le> (unat (s ! (length timestamps div 2 - 1))
                           + unat (s ! (length timestamps div 2))) div 2
              \<and> (unat (s ! (length timestamps div 2 - 1))
                   + unat (s ! (length timestamps div 2))) div 2 \<le> unat m + 1)"
  proof (cases "even ?n")
    case True
    with ne have run: "computeMedianTimestamp timestamps
        = Inr (?s ! (?n div 2 - 1) div 2 + ?s ! (?n div 2) div 2, ?s)"
      by (simp add: computeMedianTimestamp_def Let_def even_iff_mod_2_eq_zero)
    show ?thesis
      using True run half_sum_bounds [of "unat (?s ! (?n div 2 - 1))" "unat (?s ! (?n div 2))"]
      by (simp add: unat_half_sum)
  next
    case False
    then have run: "computeMedianTimestamp timestamps = Inr (?s ! (?n div 2), ?s)"
      by (simp add: computeMedianTimestamp_def Let_def even_iff_mod_2_eq_zero)
    show ?thesis using False run by simp
  qed
next
  have "computeMedianTimestamp [1, 3] = Inr (1, [1, 3])"
    by code_simp
  then show "\<exists>m s. computeMedianTimestamp [1, 3] = Inr (m, s)
         \<and> unat m + 1 = (unat (s ! 0) + unat (s ! 1)) div 2"
    by simp
qed

theorem computeMedianTimestamp_median_witness:
  "[5, 1, 9, 4] \<noteq> ([] :: u64 list)
   \<and> (\<exists>m s. computeMedianTimestamp [5, 1, 9, 4] = Inr (m, s) \<and> s = [1, 4, 5, 9] \<and> unat m = 4)"
proof -
  have s4: "sort [5, 1, 9, 4] = [1, 4, 5, 9 :: u64]"
    by code_simp
  from computeMedianTimestamp_median [of "[5, 1, 9, 4]"]
  obtain m s where "computeMedianTimestamp [5, 1, 9, 4] = Inr (m, s)"
    and "s = sort [5, 1, 9, 4]"
    and "unat m = unat (s ! 1) div 2 + unat (s ! 2) div 2"
    by auto
  then show ?thesis
    unfolding s4 by simp
qed

section \<open>Properties of Ledger.ListTransactions\<close>

text \<open>
  Claim C9. In every call of \<^verbatim>\<open>ListTransactions\<close> in which offset
  or limit is nonzero, if \<open>offset \<ge> limit\<close> or \<open>offset\<close> is
  at least the number of matching transactions, the result is nil; in particular a
  nonzero offset with a limit less than or equal to it gives no results, whatever
  transactions match.
\<close>

theorem ListTransactions_nil:
  "((offset \<noteq> 0 \<or> limit \<noteq> 0)
      \<and> (limit \<le> offset
          \<or> of_nat (length (filter (matchesFilter sender creator) txs)) \<le> offset)
      \<longrightarrow> ListTransactions offset limit sender creator txs = Inr [])
   \<and> (offset \<noteq> 0 \<and> limit \<le> offset
      \<longrightarrow> ListTransactions offset limit sender creator txs = Inr [])"
  by (simp add: ListTransactions_def Let_def)

theorem ListTransactions_nil_witness:
  "(2 :: u64) \<noteq> 0 \<and> (1 :: u64) \<le> 2
   \<and> filter (matchesFilter 0 0) [exampleTx 1 7 [] 0, exampleTx 2 7 [1] 1, exampleTx 3 8 [2] 2]
       = [exampleTx 1 7 [] 0, exampleTx 2 7 [1] 1, exampleTx 3 8 [2] 2]
   \<and> ListTransactions 2 1 0 0 [exampleTx 1 7 [] 0, exampleTx 2 7 [1] 1, exampleTx 3 8 [2] 2] = Inr []
   \<and> ListTransactions 0 0 0 0 [exampleTx 1 7 [] 0, exampleTx 2 7 [1] 1, exampleTx 3 8 [2] 2]
       = Inr [exampleTx 1 7 [] 0, exampleTx 2 7 [1] 1, exampleTx 3 8 [2] 2]"
proof -
  have h: "(2 :: u64) \<noteq> 0 \<and> (1 :: u64) \<le> 2"
    by simp
  have all: "ListTransactions 0 0 0 0 [exampleTx 1 7 [] 0, exampleTx 2 7 [1] 1, exampleTx 3 8 [2] 2]
       = Inr [exampleTx 1 7 [] 0, exampleTx 2 7 [1] 1, exampleTx 3 8 [2] 2]"
    by code_simp
  show ?thesis
    using h all ListTransactions_nil [of 2 1 0 0 "[exampleTx 1 7 [] 0, exampleTx 2 7 [1] 1, exampleTx 3 8 [2] 2]"]
    by (simp add: matchesFilter_def ZeroAccountID_def)
qed

section \<open>Properties of Snowball\<close>

lemma Tick_example_step:
  assumes "\<not> decided s" and "alpha s = 1/2" and "beta s = 11" and "progress s = n"
    and "n = 0 \<and> counts s 1 = None \<and> preferred s = None \<and> lastID s = 0
         \<or> 0 < n \<and> counts s 1 = Some (real n) \<and> preferred s = Some (exampleTx 1 7 [] 0) \<and> lastID s = 1"
  shows "alpha (Tick s [(1, 1)] [1 \<mapsto> exampleTx 1 7 [] 0]) = 1/2
    \<and> beta (Tick s [(1, 1)] [1 \<mapsto> exampleTx 1 7 [] 0]) = 11
    \<and> progress (Tick s [(1, 1)] [1 \<mapsto> exampleTx 1 7 [] 0]) = Suc n
    \<and> counts (Tick s [(1, 1)] [1 \<mapsto> exampleTx 1 7 [] 0]) 1 = Some (real (Suc n))
    \<and> preferred (Tick s [(1, 1)] [1 \<mapsto> exampleTx 1 7 [] 0]) = Some (exampleTx 1 7 [] 0)
    \<and> lastID (Tick s [(1, 1)] [1 \<mapsto> exampleTx 1 7 [] 0]) = 1
    \<and> decided (Tick s [(1, 1)] [1 \<mapsto> exampleTx 1 7 [] 0]) = (10 \<le> n)"
  using assms
  by (auto simp add: Tick_def tally_def Let_def exampleTx_def ZeroTransactionID_def)

lemma exampleTicks_Suc:
  "n < 11 \<Longrightarrow>
     alpha (exampleTicks (Suc n) exampleSnowball) = 1/2
   \<and> beta (exampleTicks (Suc n) exampleSnowball) = 11
   \<and> progress (exampleTicks (Suc n) exampleSnowball) = Suc n
   \<and> counts (exampleTicks (Suc n) exampleSnowball) 1 = Some (real (Suc n))
   \<and> preferred (exampleTicks (Suc n) exampleSnowball) = Some (exampleTx 1 7 [] 0)
   \<and> lastID (exampleTicks (Suc n) exampleSnowball) = 1
   \<and> decided (exampleTicks (Suc n) exampleSnowball) = (10 \<le> n)"
proof (induction n)
  case 0
  have "\<not> decided exampleSnowball" "alpha exampleSnowball = 1/2" "beta exampleSnowball = 11"
    "progress exampleSnowball = 0" "counts exampleSnowball 1 = None"
    "preferred exampleSnowball = None" "lastID exampleSnowball = 0"
    by (simp_all add: exampleSnowball_def NewSnowball_def ZeroTransactionID_def)
  then show ?case
    using Tick_example_step [of exampleSnowball 0] by simp
next
  case (Suc n)
  then have "n < 11" and "\<not> 10 \<le> n" by simp_all
  with Suc.IH show ?case
    using Tick_example_step [of "exampleTicks (Suc n) exampleSnowball" "Suc n"]
    by (simp del: exampleTicks.simps add: exampleTicks.simps(2) [of "Suc n"])
qed

text \<open>
  Claim C6. Ticking a decided Snowball instance changes nothing: once the decided flag is
  set, a further \<^verbatim>\<open>Tick\<close> leaves the preferred candidate, the
  per-candidate tallies, the candidate map, the consecutive-confirmation count, the last
  ticked ID and the decided flag unchanged. The witness is the scenario of the
  specification: with \<open>\<beta> = 11\<close> the instance is undecided after ten
  ticks, decided after the eleventh with progress 11, and the twelfth tick changes
  nothing.
\<close>

theorem Tick_decided_unchanged:
  "decided s \<Longrightarrow>
     Tick s cs cands = s
     \<and> preferred (Tick s cs cands) = preferred s
     \<and> counts (Tick s cs cands) = counts s
     \<and> candidates (Tick s cs cands) = candidates s
     \<and> progress (Tick s cs cands) = progress s
     \<and> lastID (Tick s cs cands) = lastID s
     \<and> decided (Tick s cs cands)"
  by (simp add: Tick_def)

theorem Tick_decided_unchanged_witness:
  "decided (exampleTicks 11 exampleSnowball)
   \<and> preferred (exampleTicks 11 exampleSnowball) = Some (exampleTx 1 7 [] 0)
   \<and> progress (exampleTicks 11 exampleSnowball) = 11
   \<and> exampleTicks 12 exampleSnowball = exampleTicks 11 exampleSnowball
   \<and> \<not> decided (exampleTicks 10 exampleSnowball)"
proof -
  have e11: "exampleTicks 11 exampleSnowball = exampleTicks (Suc 10) exampleSnowball"
    and e12: "exampleTicks 12 exampleSnowball = exampleTicks (Suc 11) exampleSnowball"
    and e10: "exampleTicks 10 exampleSnowball = exampleTicks (Suc 9) exampleSnowball"
    by simp_all
  have d: "decided (exampleTicks 11 exampleSnowball)"
    unfolding e11 using exampleTicks_Suc [of 10] by simp
  have "exampleTicks 12 exampleSnowball
      = Tick (exampleTicks 11 exampleSnowball) [(1, 1)] [1 \<mapsto> exampleTx 1 7 [] 0]"
    unfolding e12 by (simp only: exampleTicks.simps)
  with Tick_decided_unchanged [OF d, of "[(1, 1)]" "[1 \<mapsto> exampleTx 1 7 [] 0]"]
  have "exampleTicks 12 exampleSnowball = exampleTicks 11 exampleSnowball"
    by simp
  moreover have "preferred (exampleTicks 11 exampleSnowball) = Some (exampleTx 1 7 [] 0)"
    and "progress (exampleTicks 11 exampleSnowball) = 11"
    unfolding e11 using exampleTicks_Suc [of 10] by simp_all
  moreover have "\<not> decided (exampleTicks 10 exampleSnowball)"
    unfolding e10 using exampleTicks_Suc [of 9] by simp
  ultimately show ?thesis
    using d by simp
qed

section \<open>Properties of listenForQueries\<close>

text \<open>
  The claim C7 as the specification states it says that the root is the answer whenever
  the querier's view ID equals the root's.  The code also requires the root's view ID to
  be nonzero: with a root of view ID 0 and a query of view ID 0, the answer is the
  preferred transaction, not the root.
\<close>

theorem listenForQueries_counterexample:
  "ViewID (TX \<lparr>TX = exampleTx 3 9 [1] 1\<rparr>)
     = ViewID (root (exampleLedger (exampleTx 1 7 [] 0) 1 (Prefer exampleSnowball (exampleTx 2 8 [1] 1)) exampleSnowball))
   \<and> fst (listenForQueries
        (exampleLedger (exampleTx 1 7 [] 0) 1 (Prefer exampleSnowball (exampleTx 2 8 [1] 1)) exampleSnowball)
        (Chan \<lparr>TX = exampleTx 3 9 [1] 1\<rparr>))
     = Some (Some (exampleTx 2 8 [1] 1))
   \<and> exampleTx 2 8 [1] 1 \<noteq> exampleTx 1 7 [] 0"
  by (simp add: listenForQueries_def exampleLedger_def exampleTx_def Prefer_def exampleSnowball_def NewSnowball_def Preferred_def)

text \<open>
  Claim C7, amended.  Each incoming query is answered with exactly one of three
  responses: the root when the root's view ID is nonzero and equals the view ID of the
  querier's transaction; otherwise the locally preferred transaction when there is one;
  otherwise nil.
\<close>

theorem listenForQueries_response:
  "(ViewID (root l) \<noteq> 0 \<and> ViewID (TX evt) = ViewID (root l)
      \<longrightarrow> fst (listenForQueries l (Chan evt)) = Some (Some (root l)))
   \<and> (\<not> (ViewID (root l) \<noteq> 0 \<and> ViewID (TX evt) = ViewID (root l)) \<and> Preferred (cr l) = Some p
      \<longrightarrow> fst (listenForQueries l (Chan evt)) = Some (Some p))
   \<and> (\<not> (ViewID (root l) \<noteq> 0 \<and> ViewID (TX evt) = ViewID (root l)) \<and> Preferred (cr l) = None
      \<longrightarrow> fst (listenForQueries l (Chan evt)) = Some None)"
  by (simp add: listenForQueries_def)

theorem listenForQueries_response_witness:
  "fst (listenForQueries
        (exampleLedger ((exampleTx 1 7 [] 0)\<lparr>ViewID := 4\<rparr>) 5 (Prefer exampleSnowball (exampleTx 2 8 [1] 1)) exampleSnowball)
        (Chan \<lparr>TX = (exampleTx 3 9 [1] 1)\<lparr>ViewID := 4\<rparr>\<rparr>))
     = Some (Some ((exampleTx 1 7 [] 0)\<lparr>ViewID := 4\<rparr>))
   \<and> fst (listenForQueries
        (exampleLedger ((exampleTx 1 7 [] 0)\<lparr>ViewID := 4\<rparr>) 5 (Prefer exampleSnowball (exampleTx 2 8 [1] 1)) exampleSnowball)
        (Chan \<lparr>TX = (exampleTx 3 9 [1] 1)\<lparr>ViewID := 3\<rparr>\<rparr>))
     = Some (Some (exampleTx 2 8 [1] 1))
   \<and> fst (listenForQueries
        (exampleLedger ((exampleTx 1 7 [] 0)\<lparr>ViewID := 4\<rparr>) 5 exampleSnowball exampleSnowball)
        (Chan \<lparr>TX = (exampleTx 3 9 [1] 1)\<lparr>ViewID := 3\<rparr>\<rparr>))
     = Some None"
  using
    listenForQueries_response [of
      "exampleLedger ((exampleTx 1 7 [] 0)\<lparr>ViewID := 4\<rparr>) 5 (Prefer exampleSnowball (exampleTx 2 8 [1] 1)) exampleSnowball"
      "\<lparr>TX = (exampleTx 3 9 [1] 1)\<lparr>ViewID := 4\<rparr>\<rparr>" "exampleTx 2 8 [1] 1"]
    listenForQueries_response [of
      "exampleLedger ((exampleTx 1 7 [] 0)\<lparr>ViewID := 4\<rparr>) 5 (Prefer exampleSnowball (exampleTx 2 8 [1] 1)) exampleSnowball"
      "\<lparr>TX = (exampleTx 3 9 [1] 1)\<lparr>ViewID := 3\<rparr>\<rparr>" "exampleTx 2 8 [1] 1"]
    listenForQueries_response [of
      "exampleLedger ((exampleTx 1 7 [] 0)\<lparr>ViewID := 4\<rparr>) 5 exampleSnowball exampleSnowball"
      "\<lparr>TX = (exampleTx 3 9 [1] 1)\<lparr>ViewID := 3\<rparr>\<rparr>" "exampleTx 2 8 [1] 1"]
  by (simp add: exampleLedger_def exampleTx_def Prefer_def exampleSnowball_def NewSnowball_def Preferred_def)

section \<open>Properties of checkIfOutOfSync\<close>

lemma tick_example:
  "tickOutOfSyncVotes exampleSyncSnowball unitWeights [\<lparr>Voter = 8, Root = examplePeerRoot\<rparr>]
   = exampleSyncSnowball\<lparr>preferred := Some examplePeerRoot, lastID := 9, progress := 1,
      counts := [9 \<mapsto> 1], candidates := [9 \<mapsto> examplePeerRoot], decided := True\<rparr>"
  by (auto simp add: tickOutOfSyncVotes_def Tick_def tally_def Let_def exampleSyncSnowball_def NewSnowball_def unitWeights_def
      examplePeerRoot_def exampleTx_def ZeroTransactionID_def)

text \<open>
  The claim C3 as the specification states it says that
  \<^verbatim>\<open>ErrOutOfSync\<close> is returned only for a decided peer root whose
  view ID is greater than the local view ID plus one. The code compares the other way
  round (\<^verbatim>\<open>l.v.loadViewID() >= root.ViewID+1\<close> resets): with local
  view ID 5 and a decided peer root of view ID 5 and another ID, it returns
  \<^verbatim>\<open>ErrOutOfSync\<close>.
\<close>

theorem checkIfOutOfSync_counterexample:
  "fst (checkIfOutOfSync (exampleLedger exampleLocalRoot 5 exampleSnowball exampleSyncSnowball)
         unitWeights (Chan ()) (Chan (ReplyVotes [\<lparr>Voter = 8, Root = examplePeerRoot\<rparr>])))
     = Some ErrOutOfSync
   \<and> Preferred (tickOutOfSyncVotes exampleSyncSnowball unitWeights [\<lparr>Voter = 8, Root = examplePeerRoot\<rparr>])
     = Some examplePeerRoot
   \<and> \<not> (ViewID examplePeerRoot
         > viewID (exampleLedger exampleLocalRoot 5 exampleSnowball exampleSyncSnowball) + 1)"
proof -
  have "\<not> ((5 :: u64) \<ge> 5 + 1)" "\<not> ((5 :: u64) > 5 + 1)"
    by code_simp+
  then show ?thesis
    by (simp add: checkIfOutOfSync_def exampleLedger_def Let_def tick_example Decided_def Preferred_def)
       (simp add: examplePeerRoot_def exampleLocalRoot_def exampleTx_def)
qed

text \<open>
  Claim C3, amended. \<^verbatim>\<open>checkIfOutOfSync\<close> returns
  \<^verbatim>\<open>ErrOutOfSync\<close> exactly when votes were received and the sync
  Snowball, after the tick, has decided on a peer root whose ID differs from the local
  root's and whose view ID plus one (in \<^verbatim>\<open>uint64\<close>) is strictly
  greater than the local view ID. In every other decided case with a preferred root (same
  ID, or view ID plus one at most the local view ID) the sync Snowball is reset and nil
  is returned.
\<close>

theorem checkIfOutOfSync_transition:
  "(fst (checkIfOutOfSync l csd sent reply) = Some ErrOutOfSync \<longleftrightarrow>
      (\<exists>u votes peer. sent = Chan u \<and> reply = Chan (ReplyVotes votes) \<and> votes \<noteq> []
         \<and> Decided (tickOutOfSyncVotes (sr l) csd votes)
         \<and> Preferred (tickOutOfSyncVotes (sr l) csd votes) = Some peer
         \<and> TxID peer \<noteq> TxID (root l) \<and> viewID l < ViewID peer + 1))
   \<and> (votes \<noteq> []
       \<and> Decided (tickOutOfSyncVotes (sr l) csd votes)
       \<and> Preferred (tickOutOfSyncVotes (sr l) csd votes) = Some peer
       \<and> (TxID peer = TxID (root l) \<or> ViewID peer + 1 \<le> viewID l)
      \<longrightarrow> checkIfOutOfSync l csd (Chan u) (Chan (ReplyVotes votes))
          = (None, l\<lparr>sr := Reset (tickOutOfSyncVotes (sr l) csd votes)\<rparr>))"
  by (auto simp add: checkIfOutOfSync_def Let_def not_le
      split: selected.splits outOfSyncReply.splits option.splits)

theorem checkIfOutOfSync_transition_witness:
  "[\<lparr>Voter = 8, Root = examplePeerRoot\<rparr>] \<noteq> []
   \<and> Decided (tickOutOfSyncVotes exampleSyncSnowball unitWeights [\<lparr>Voter = 8, Root = examplePeerRoot\<rparr>])
   \<and> Preferred (tickOutOfSyncVotes exampleSyncSnowball unitWeights [\<lparr>Voter = 8, Root = examplePeerRoot\<rparr>])
       = Some examplePeerRoot
   \<and> ViewID examplePeerRoot + 1 \<le> (7 :: u64)
   \<and> checkIfOutOfSync (exampleLedger exampleLocalRoot 7 exampleSnowball exampleSyncSnowball)
         unitWeights (Chan ()) (Chan (ReplyVotes [\<lparr>Voter = 8, Root = examplePeerRoot\<rparr>]))
       = (None, (exampleLedger exampleLocalRoot 7 exampleSnowball exampleSyncSnowball)
                 \<lparr>sr := Reset (tickOutOfSyncVotes exampleSyncSnowball unitWeights
                                 [\<lparr>Voter = 8, Root = examplePeerRoot\<rparr>])\<rparr>)"
proof -
  have sr: "sr (exampleLedger exampleLocalRoot 7 exampleSnowball exampleSyncSnowball) = exampleSyncSnowball"
    and vw: "viewID (exampleLedger exampleLocalRoot 7 exampleSnowball exampleSyncSnowball) = 7"
    by (simp_all add: exampleLedger_def)
  have le: "ViewID examplePeerRoot + 1 \<le> (7 :: u64)"
    by (simp add: examplePeerRoot_def)
  have d: "Decided (tickOutOfSyncVotes exampleSyncSnowball unitWeights [\<lparr>Voter = 8, Root = examplePeerRoot\<rparr>])"
    and p: "Preferred (tickOutOfSyncVotes exampleSyncSnowball unitWeights [\<lparr>Voter = 8, Root = examplePeerRoot\<rparr>])
       = Some examplePeerRoot"
    by (simp_all add: tick_example Decided_def Preferred_def)
  show ?thesis
    using le d p
      checkIfOutOfSync_transition [of "exampleLedger exampleLocalRoot 7 exampleSnowball exampleSyncSnowball"
        unitWeights "Chan ()" "Chan (ReplyVotes [\<lparr>Voter = 8, Root = examplePeerRoot\<rparr>])"
        "[\<lparr>Voter = 8, Root = examplePeerRoot\<rparr>]" examplePeerRoot "()"]
    by (simp add: sr vw)
qed

section \<open>Properties of syncUp\<close>

lemma selectLoop_Some:
  "selectLoop votes groups = (if \<exists>v \<in> set groups. length votes * 2 div 3 \<le> length v then Some votes else None)"
  by (induction groups) auto

text \<open>
  Whatever the order of the groups, \<^verbatim>\<open>syncUp\<close> goes on with all
  the responses as soon as one group reaches \<^verbatim>\<open>len(votes)*2/3\<close>,
  and fails with \<^verbatim>\<open>ErrSyncFailed\<close> otherwise.
\<close>

lemma syncUpSelect_result:
  "syncUpSelect (Chan u) (Chan (InitResult votes)) =
     (if \<exists>v \<in> set (viewIDKeys votes). length votes * 2 div 3 \<le> length (votesByViewID votes v)
      then Inr votes else Inl ErrSyncFailed)"
  by (simp add: syncUpSelect_def selectLoop_Some)

text \<open>
  Claim C1. The claim says that the sync proceeds with exactly the responders of a
  view-ID group holding at least two-thirds of the responses. On three responses with
  view IDs 7, 7 and 9, the group of view ID 7 has two of the three responses, and
  \<^verbatim>\<open>syncUp\<close> goes on with all three responders
  (\<^verbatim>\<open>selected = votes\<close>), the one of view ID 9 included, whose
  group holds less than two-thirds of the responses.
\<close>

theorem syncUpSelect_all_responders:
  "syncUpSelect (Chan ()) (Chan (InitResult [exampleVote ''a'' 7, exampleVote ''b'' 7, exampleVote ''c'' 9]))
     = Inr [exampleVote ''a'' 7, exampleVote ''b'' 7, exampleVote ''c'' 9]
   \<and> votesByViewID [exampleVote ''a'' 7, exampleVote ''b'' 7, exampleVote ''c'' 9] 7
     = [exampleVote ''a'' 7, exampleVote ''b'' 7]
   \<and> votesByViewID [exampleVote ''a'' 7, exampleVote ''b'' 7, exampleVote ''c'' 9] 9
     = [exampleVote ''c'' 9]
   \<and> 3 * length [exampleVote ''c'' 9]
     < 2 * length [exampleVote ''a'' 7, exampleVote ''b'' 7, exampleVote ''c'' 9]"
  by (simp add: syncUpSelect_def votesByViewID_def viewIDKeys_def exampleVote_def)

section \<open>Properties of rewardValidators\<close>

lemma rewardInit_facts:
  "rewardInit g ps (q, visited) = (q', visited')
     \<Longrightarrow> visited' = visited \<union> set ps
         \<and> set q' = set q \<union> {b. \<exists>p \<in> set ps. lookupTransaction g p = Some b}"
proof (induction ps arbitrary: q visited)
  case Nil
  then show ?case by simp
next
  case (Cons p ps)
  show ?case
  proof (cases "lookupTransaction g p")
    case None
    with Cons.prems have "rewardInit g ps (q, insert p visited) = (q', visited')"
      by simp
    from Cons.IH [OF this] None show ?thesis
      by auto
  next
    case (Some parent)
    with Cons.prems have "rewardInit g ps (q @ [parent], insert p visited) = (q', visited')"
      by simp
    from Cons.IH [OF this] Some show ?thesis
      by auto
  qed
qed

lemma rewardVisit_facts:
  "rewardVisit g ps (q, visited) = (q', visited')
     \<Longrightarrow> visited' = visited \<union> set ps
         \<and> set q \<subseteq> set q'
         \<and> set q' \<subseteq> set q \<union> {b. \<exists>p \<in> set ps. lookupTransaction g p = Some b}
         \<and> (\<forall>p \<in> set ps. p \<notin> visited \<longrightarrow> (\<forall>b. lookupTransaction g p = Some b \<longrightarrow> b \<in> set q'))"
proof (induction ps arbitrary: q visited)
  case Nil
  then show ?case by simp
next
  case (Cons p ps)
  show ?case
  proof (cases "p \<in> visited")
    case True
    with Cons.prems have "rewardVisit g ps (q, visited) = (q', visited')"
      by simp
    from Cons.IH [OF this] True show ?thesis
      by auto
  next
    case False
    show ?thesis
    proof (cases "lookupTransaction g p")
      case None
      with False Cons.prems have "rewardVisit g ps (q, insert p visited) = (q', visited')"
        by simp
      from Cons.IH [OF this] None False show ?thesis
        by auto
    next
      case (Some parent)
      with False Cons.prems have "rewardVisit g ps (q @ [parent], insert p visited) = (q', visited')"
        by simp
      from Cons.IH [OF this] Some False show ?thesis
        by auto
    qed
  qed
qed


lemma considerCandidate_cands:
  "set (fst (considerCandidate params ss tx popped acc))
     = set (fst acc) \<union> (if Sender popped \<noteq> Sender tx
                              \<and> MinimumStake params < fst (ReadAccountStake ss (Sender popped))
                           then {popped} else {})"
  by (cases acc) (simp add: considerCandidate_def Let_def)

lemma rewardLoop_sound:
  assumes "\<forall>b \<in> set q. \<exists>i. rewardWalk params g tx i \<and> lookupTransaction g i = Some b"
    and "\<forall>a \<in> set (fst acc). \<exists>i. rewardWalk params g tx i \<and> lookupTransaction g i = Some a
           \<and> eligible params ss tx a"
  shows "\<forall>a \<in> set (fst (rewardLoop params g ss tx q visited acc)).
           \<exists>i. rewardWalk params g tx i \<and> lookupTransaction g i = Some a \<and> eligible params ss tx a"
  using assms
proof (induction params g ss tx q visited acc rule: rewardLoop.induct)
  case (1 params g ss tx visited acc)
  then show ?case by simp
next
  case (2 params g ss tx popped rest visited acc)
  show ?case
  proof (cases "depth popped + MaxEligibleParentsDepthDiff params < depth tx")
    case True
    with "2.IH"(1) "2.prems" show ?thesis by simp
  next
    case False
    then have within: "withinDepth params tx popped"
      by (simp add: withinDepth_def)
    from "2.prems"(1) obtain i where i: "rewardWalk params g tx i" "lookupTransaction g i = Some popped"
      by auto
    obtain q' visited' where visit: "rewardVisit g (ParentIDs popped) (rest, visited) = (q', visited')"
      by (cases "rewardVisit g (ParentIDs popped) (rest, visited)") auto
    from rewardVisit_facts [OF visit]
    have sub: "set q' \<subseteq> set rest \<union> {b. \<exists>p \<in> set (ParentIDs popped). lookupTransaction g p = Some b}"
      by simp
    have q': "\<forall>b \<in> set q'. \<exists>j. rewardWalk params g tx j \<and> lookupTransaction g j = Some b"
    proof
      fix b assume "b \<in> set q'"
      with sub have "b \<in> set rest \<or> (\<exists>p \<in> set (ParentIDs popped). lookupTransaction g p = Some b)"
        by auto
      then show "\<exists>j. rewardWalk params g tx j \<and> lookupTransaction g j = Some b"
      proof
        assume "b \<in> set rest"
        with "2.prems"(1) show ?thesis by simp
      next
        assume "\<exists>p \<in> set (ParentIDs popped). lookupTransaction g p = Some b"
        then obtain p where "p \<in> set (ParentIDs popped)" and "lookupTransaction g p = Some b"
          by auto
        with i within show ?thesis
          by (auto intro: rewardWalk.grandparent)
      qed
    qed
    have acc': "\<forall>a \<in> set (fst (considerCandidate params ss tx popped acc)).
        \<exists>j. rewardWalk params g tx j \<and> lookupTransaction g j = Some a \<and> eligible params ss tx a"
      using "2.prems"(2) i within
      by (auto simp add: considerCandidate_cands eligible_def split: if_splits)
    from "2.IH"(2) [OF False refl] q' acc' visit False show ?thesis
      by (simp add: Let_def)
  qed
qed

lemma handled_walk_visited:
  assumes "handled params g ss tx [] visited cands" and "rewardWalk params g tx i"
  shows "i \<in> visited"
  using assms(2,1)
proof (induction rule: rewardWalk.induct)
  case (parent p)
  then show ?case by (auto simp add: handled_def)
next
  case (grandparent i b p)
  then have "i \<in> visited" by simp
  with grandparent.hyps grandparent.prems show ?case
    by (auto simp add: handled_def)
qed

lemma rewardLoop_complete:
  assumes "handled params g ss tx q visited (fst acc)"
    and "rewardWalk params g tx i" and "lookupTransaction g i = Some a" and "eligible params ss tx a"
  shows "a \<in> set (fst (rewardLoop params g ss tx q visited acc))"
  using assms
proof (induction params g ss tx q visited acc rule: rewardLoop.induct)
  case (1 params g ss tx visited acc)
  from handled_walk_visited [OF "1.prems"(1,2)] have "i \<in> visited" .
  with "1.prems" show ?case
    by (auto simp add: handled_def)
next
  case (2 params g ss tx popped rest visited acc)
  show ?case
  proof (cases "depth popped + MaxEligibleParentsDepthDiff params < depth tx")
    case True
    then have beyond: "\<not> withinDepth params tx popped"
      by (simp add: withinDepth_def)
    have "handled params g ss tx rest visited (fst acc)"
      unfolding handled_def
    proof (intro conjI allI impI)
      show "set (ParentIDs tx) \<subseteq> visited"
        using "2.prems"(1) by (simp add: handled_def)
    next
      fix j b assume jb: "j \<in> visited \<and> lookupTransaction g j = Some b \<and> b \<notin> set rest"
        and "withinDepth params tx b"
      with beyond have "b \<noteq> popped" by auto
      with jb \<open>withinDepth params tx b\<close> "2.prems"(1) show "set (ParentIDs b) \<subseteq> visited"
        unfolding handled_def by (metis set_ConsD)
    next
      fix j b assume jb: "j \<in> visited \<and> lookupTransaction g j = Some b \<and> b \<notin> set rest"
        and el: "eligible params ss tx b"
      with beyond have "b \<noteq> popped" by (auto simp add: eligible_def)
      with jb el "2.prems"(1) show "b \<in> set (fst acc)"
        unfolding handled_def by (metis set_ConsD)
    qed
    from "2.IH"(1) [OF True this "2.prems"(2,3,4)] True show ?thesis
      by simp
  next
    case False
    then have within: "withinDepth params tx popped"
      by (simp add: withinDepth_def)
    obtain q' visited' where visit: "rewardVisit g (ParentIDs popped) (rest, visited) = (q', visited')"
      by (cases "rewardVisit g (ParentIDs popped) (rest, visited)") auto
    from rewardVisit_facts [OF visit]
    have v': "visited' = visited \<union> set (ParentIDs popped)"
      and keep: "set rest \<subseteq> set q'"
      and pushed: "\<forall>p \<in> set (ParentIDs popped). p \<notin> visited \<longrightarrow>
                     (\<forall>b. lookupTransaction g p = Some b \<longrightarrow> b \<in> set q')"
      by simp_all
    let ?cands' = "fst (considerCandidate params ss tx popped acc)"
    have cands': "set (fst acc) \<subseteq> set ?cands'"
      by (auto simp add: considerCandidate_cands)
    have "handled params g ss tx q' visited' ?cands'"
      unfolding handled_def
    proof (intro conjI allI impI)
      show "set (ParentIDs tx) \<subseteq> visited'"
        using "2.prems"(1) v' by (auto simp add: handled_def)
    next
      fix j b assume jb: "j \<in> visited' \<and> lookupTransaction g j = Some b \<and> b \<notin> set q'"
        and wb: "withinDepth params tx b"
      with pushed v' have j: "j \<in> visited" by auto
      from jb keep have nr: "b \<notin> set rest" by auto
      show "set (ParentIDs b) \<subseteq> visited'"
      proof (cases "b = popped")
        case True
        with v' show ?thesis by auto
      next
        case False
        with nr have "b \<notin> set (popped # rest)" by simp
        with j jb wb "2.prems"(1) have "set (ParentIDs b) \<subseteq> visited"
          unfolding handled_def by blast
        with v' show ?thesis by auto
      qed
    next
      fix j b assume jb: "j \<in> visited' \<and> lookupTransaction g j = Some b \<and> b \<notin> set q'"
        and el: "eligible params ss tx b"
      with pushed v' have j: "j \<in> visited" by auto
      from jb keep have nr: "b \<notin> set rest" by auto
      show "b \<in> set ?cands'"
      proof (cases "b = popped")
        case True
        with el show ?thesis
          by (simp add: considerCandidate_cands eligible_def)
      next
        case False
        with nr have "b \<notin> set (popped # rest)" by simp
        with j jb el "2.prems"(1) have "b \<in> set (fst acc)"
          unfolding handled_def by blast
        with cands' show ?thesis by auto
      qed
    qed
    from "2.IH"(2) [OF False refl] this "2.prems"(2,3,4) visit False show ?thesis
      by (simp add: Let_def)
  qed
qed

text \<open>
  The claim C5 as the specification states it takes the ancestors with a stake greater
  than or equal to the minimum stake. The code tests
  \<^verbatim>\<open>stake > sys.MinimumStake\<close>: in the example graph the ancestor
  2, of another sender, within the depth limit and with a stake equal to the minimum
  stake, is no candidate.
\<close>

theorem rewardCandidates_counterexample:
  "fst (rewardCandidates exampleParams exampleGraph
          (exampleAccounts [7 \<mapsto> 1] [8 \<mapsto> 100, 9 \<mapsto> 150]) exampleCritical)
     = [exampleTx 3 9 [1, 2] 2]
   \<and> 3 \<in> set (ParentIDs exampleCritical)
   \<and> lookupTransaction exampleGraph 3 = Some (exampleTx 3 9 [1, 2] 2)
   \<and> 2 \<in> set (ParentIDs (exampleTx 3 9 [1, 2] 2))
   \<and> lookupTransaction exampleGraph 2 = Some (exampleTx 2 8 [1] 1)
   \<and> withinDepth exampleParams exampleCritical (exampleTx 2 8 [1] 1)
   \<and> Sender (exampleTx 2 8 [1] 1) \<noteq> Sender exampleCritical
   \<and> MinimumStake exampleParams
       \<le> fst (ReadAccountStake (exampleAccounts [7 \<mapsto> 1] [8 \<mapsto> 100, 9 \<mapsto> 150]) (Sender (exampleTx 2 8 [1] 1)))"
  by code_simp

text \<open>
  Claim C5, amended. For every transaction with sender \<open>S\<close> that the reward
  routine is run on, the candidates are exactly the transactions that the walk back from
  its parents reaches in the graph (the walk does not go past a transaction beyond the
  depth limit), that are within \<^verbatim>\<open>MaxEligibleParentsDepthDiff\<close> of
  the transaction's depth, whose sender differs from \<open>S\<close> and whose stake is
  strictly greater than the minimum stake.
\<close>

theorem rewardCandidates_exact:
  "set (fst (rewardCandidates params g ss tx))
     = {a. \<exists>i. rewardWalk params g tx i \<and> lookupTransaction g i = Some a
              \<and> withinDepth params tx a \<and> Sender a \<noteq> Sender tx
              \<and> MinimumStake params < fst (ReadAccountStake ss (Sender a))}"
proof -
  obtain q visited where init: "rewardInit g (ParentIDs tx) ([], {}) = (q, visited)"
    by (cases "rewardInit g (ParentIDs tx) ([], {})") auto
  from rewardInit_facts [OF init]
  have visited: "visited = set (ParentIDs tx)"
    and q: "set q = {b. \<exists>p \<in> set (ParentIDs tx). lookupTransaction g p = Some b}"
    by simp_all
  have run: "rewardCandidates params g ss tx = rewardLoop params g ss tx q visited ([], [], 0)"
    by (simp add: rewardCandidates_def init)
  have "\<forall>b \<in> set q. \<exists>i. rewardWalk params g tx i \<and> lookupTransaction g i = Some b"
    using q by (auto intro: rewardWalk.parent)
  from rewardLoop_sound [OF this, of "([], [], 0)" ss visited]
  have sound: "\<forall>a \<in> set (fst (rewardCandidates params g ss tx)).
      \<exists>i. rewardWalk params g tx i \<and> lookupTransaction g i = Some a \<and> eligible params ss tx a"
    by (simp add: run)
  have "handled params g ss tx q visited (fst ([] :: Transaction list, [] :: u64 list, 0 :: u64))"
    using visited q by (auto simp add: handled_def)
  from rewardLoop_complete [OF this]
  have complete: "a \<in> set (fst (rewardCandidates params g ss tx))"
    if "rewardWalk params g tx i" and "lookupTransaction g i = Some a" and "eligible params ss tx a"
    for i a
    using that by (simp add: run)
  show ?thesis
  proof (intro set_eqI iffI)
    fix a assume "a \<in> set (fst (rewardCandidates params g ss tx))"
    with sound show "a \<in> {a. \<exists>i. rewardWalk params g tx i \<and> lookupTransaction g i = Some a
              \<and> withinDepth params tx a \<and> Sender a \<noteq> Sender tx
              \<and> MinimumStake params < fst (ReadAccountStake ss (Sender a))}"
      by (auto simp add: eligible_def)
  next
    fix a assume "a \<in> {a. \<exists>i. rewardWalk params g tx i \<and> lookupTransaction g i = Some a
              \<and> withinDepth params tx a \<and> Sender a \<noteq> Sender tx
              \<and> MinimumStake params < fst (ReadAccountStake ss (Sender a))}"
    then show "a \<in> set (fst (rewardCandidates params g ss tx))"
      by (auto simp add: eligible_def intro: complete)
  qed
qed

lemma rewardLoop_lengths:
  "length (fst acc) = length (fst (snd acc))
     \<Longrightarrow> length (fst (rewardLoop params g ss tx q visited acc))
         = length (fst (snd (rewardLoop params g ss tx q visited acc)))"
proof (induction params g ss tx q visited acc rule: rewardLoop.induct)
  case (1 params g ss tx visited acc)
  then show ?case by simp
next
  case (2 params g ss tx popped rest visited acc)
  have "length (fst (considerCandidate params ss tx popped acc))
      = length (fst (snd (considerCandidate params ss tx popped acc)))"
    using "2.prems" by (cases acc) (simp add: considerCandidate_def Let_def)
  with 2 show ?case
    by (simp add: Let_def)
qed

lemma rewardCandidates_lengths:
  "length (fst (rewardCandidates params g ss tx)) = length (fst (snd (rewardCandidates params g ss tx)))"
  by (simp add: rewardCandidates_def Let_def rewardLoop_lengths)

lemma rewardValidators_insufficient_funds:
  assumes "fst (ReadAccountBalance ss (Sender tx)) < TransactionFeeAmount params"
  shows "rewardValidators params pick g ss tx =
           (ss, if fst (rewardCandidates params g ss tx) \<noteq> []
                   \<and> snd (snd (rewardCandidates params g ss tx)) \<noteq> 0
                then Some ErrNotEnoughFunds else None, [])"
  using assms rewardCandidates_lengths [of params g ss tx]
  by (cases "rewardCandidates params g ss tx") (auto simp add: rewardValidators_def Let_def)

text \<open>
  The claim C2 as the specification states it says that a transaction whose sender cannot
  pay the fee is rejected as a whole, and that the failure is logged. In the example the
  sender 8 of the transaction 2 has a balance of 1, below the fee of 2. The transaction
  is applied all the same (the account 5 receives one unit, the sender is left with 0),
  the reward fails, and with \<open>logging\<close> off (as
  \<^verbatim>\<open>assertCollapsible\<close> calls the function) nothing is logged.
\<close>

theorem collapseTransactions_effects_counterexample:
  "fst (ReadAccountBalance (exampleAccounts [7 \<mapsto> 10, 8 \<mapsto> 1] [7 \<mapsto> 200]) (Sender (exampleTx 2 8 [1] 1)))
     < TransactionFeeAmount exampleParams
   \<and> accountBalance (exampleAccounts [7 \<mapsto> 10, 8 \<mapsto> 1] [7 \<mapsto> 200]) 5 = None
   \<and> accountBalance (fst (collapseTransactions exampleParams givingProcessor pickNone
         (exampleCollapseLedger (exampleAccounts [7 \<mapsto> 10, 8 \<mapsto> 1] [7 \<mapsto> 200]))
         (exampleTx 4 7 [2] 2) False)) 5 = Some 1
   \<and> accountBalance (fst (collapseTransactions exampleParams givingProcessor pickNone
         (exampleCollapseLedger (exampleAccounts [7 \<mapsto> 10, 8 \<mapsto> 1] [7 \<mapsto> 200]))
         (exampleTx 4 7 [2] 2) False)) 8 = Some 0
   \<and> snd (collapseTransactions exampleParams givingProcessor pickNone
         (exampleCollapseLedger (exampleAccounts [7 \<mapsto> 10, 8 \<mapsto> 1] [7 \<mapsto> 200]))
         (exampleTx 4 7 [2] 2) False) = (None, [])"
  by code_simp

text \<open>
  Claim C2, amended.  For every transaction processed during collapse whose sender's
  balance, after the transaction has been applied, is below the fee: no fee is moved (the
  reward routine leaves the snapshot as the application left it, so the effects of the
  application stay); and when there is a reward candidate (with a nonzero total stake)
  the reward routine fails, which is logged when logging is on.
\<close>

theorem collapseStep_insufficient_funds:
  assumes "applyTransactionToSnapshot procs ss popped = (ss1, applyErr)"
    and "fst (ReadAccountBalance ss1 (Sender popped)) < TransactionFeeAmount params"
  shows "fst (collapseStep params procs pick g logging (ss, logs) popped) = ss1
    \<and> fst (rewardValidators params pick g ss1 popped) = ss1
    \<and> (fst (rewardCandidates params g ss1 popped) \<noteq> []
         \<and> snd (snd (rewardCandidates params g ss1 popped)) \<noteq> 0
       \<longrightarrow> fst (snd (rewardValidators params pick g ss1 popped)) = Some ErrNotEnoughFunds
           \<and> (logging \<longrightarrow> LogRewardFailed ErrNotEnoughFunds
                           \<in> set (snd (collapseStep params procs pick g logging (ss, logs) popped))))"
  using assms(1) rewardValidators_insufficient_funds [OF assms(2), of pick g]
  by (simp add: collapseStep_def Let_def)

theorem collapseStep_insufficient_funds_witness:
  "applyTransactionToSnapshot givingProcessor (exampleAccounts [7 \<mapsto> 10, 8 \<mapsto> 1] [7 \<mapsto> 200]) (exampleTx 2 8 [1] 1)
     = (exampleAccounts [7 \<mapsto> 10, 8 \<mapsto> 0, 5 \<mapsto> 1] [7 \<mapsto> 200], None)
   \<and> fst (ReadAccountBalance (exampleAccounts [7 \<mapsto> 10, 8 \<mapsto> 0, 5 \<mapsto> 1] [7 \<mapsto> 200]) (Sender (exampleTx 2 8 [1] 1)))
       < TransactionFeeAmount exampleParams
   \<and> fst (rewardCandidates exampleParams exampleGraph
            (exampleAccounts [7 \<mapsto> 10, 8 \<mapsto> 0, 5 \<mapsto> 1] [7 \<mapsto> 200]) (exampleTx 2 8 [1] 1))
       = [exampleTx 1 7 [] 0]
   \<and> fst (collapseStep exampleParams givingProcessor pickNone exampleGraph True
            (exampleAccounts [7 \<mapsto> 10, 8 \<mapsto> 1] [7 \<mapsto> 200], []) (exampleTx 2 8 [1] 1))
       = exampleAccounts [7 \<mapsto> 10, 8 \<mapsto> 0, 5 \<mapsto> 1] [7 \<mapsto> 200]
   \<and> LogRewardFailed ErrNotEnoughFunds
       \<in> set (snd (collapseStep exampleParams givingProcessor pickNone exampleGraph True
                      (exampleAccounts [7 \<mapsto> 10, 8 \<mapsto> 1] [7 \<mapsto> 200], []) (exampleTx 2 8 [1] 1)))"
proof -
  let ?ss = "exampleAccounts [7 \<mapsto> 10, 8 \<mapsto> 1] [7 \<mapsto> 200]"
  let ?ss1 = "exampleAccounts [7 \<mapsto> 10, 8 \<mapsto> 0, 5 \<mapsto> 1] [7 \<mapsto> 200]"
  let ?tx = "exampleTx 2 8 [1] 1"
  have applied: "applyTransactionToSnapshot givingProcessor ?ss ?tx = (?ss1, None)"
    by (simp add: applyTransactionToSnapshot_def givingProcessor_def ReadAccountBalance_def
        WriteAccountBalance_def exampleAccounts_def exampleTx_def Let_def)
  have low: "fst (ReadAccountBalance ?ss1 (Sender ?tx)) < TransactionFeeAmount exampleParams"
    by code_simp
  have cands: "fst (rewardCandidates exampleParams exampleGraph ?ss1 ?tx) = [exampleTx 1 7 [] 0]"
    and total: "snd (snd (rewardCandidates exampleParams exampleGraph ?ss1 ?tx)) \<noteq> 0"
    by code_simp+
  from collapseStep_insufficient_funds [OF applied low, of pickNone exampleGraph True "[]"] cands total
  show ?thesis
    using applied low by simp
qed

section \<open>Properties of collapseTransactions\<close>















section \<open>Properties of the Merkle AVL tree's diffs\<close>

lemma lastModified_root: "nodeViewID n \<le> lastModified n"
  by (cases n) simp_all

lemma dumpNode_unchanged:
  "lastModified n \<le> since \<Longrightarrow> dumpNode h since n = []"
  using lastModified_root [of n] by (cases n) auto

text \<open>
  Claim C8.  Applying an empty diff to a tree leaves its contents and its checksum
  unchanged; and a diff dumped since a view ID at or beyond the last change of the
  dumped tree's content is empty, also when the view ID of that tree has been raised
  since, so that applying it is such a no-op.  The witness also dumps the first example
  tree since view 0, which is not empty, and grafts it on the second.
\<close>

theorem ApplyDiff_empty_diff:
  "(\<exists>t'. ApplyDiff h t [] = Inr t' \<and> treeContents t' = treeContents t \<and> Checksum h t' = Checksum h t)
   \<and> (lastContentChange t1 \<le> since \<longrightarrow>
        DumpDiff h (SetViewID_tree t1 v) since = []
        \<and> (\<exists>t'. ApplyDiff h t (DumpDiff h (SetViewID_tree t1 v) since) = Inr t'
              \<and> treeContents t' = treeContents t \<and> Checksum h t' = Checksum h t))"
proof (intro conjI impI)
  show "\<exists>t'. ApplyDiff h t [] = Inr t' \<and> treeContents t' = treeContents t \<and> Checksum h t' = Checksum h t"
    by (simp add: ApplyDiff_def)
next
  assume "lastContentChange t1 \<le> since"
  then show empty: "DumpDiff h (SetViewID_tree t1 v) since = []"
    by (cases "treeRoot t1")
       (simp_all add: DumpDiff_def SetViewID_tree_def lastContentChange_def dumpNode_unchanged)
  then show "\<exists>t'. ApplyDiff h t (DumpDiff h (SetViewID_tree t1 v) since) = Inr t'
              \<and> treeContents t' = treeContents t \<and> Checksum h t' = Checksum h t"
    by (simp add: ApplyDiff_def)
qed

theorem ApplyDiff_empty_diff_witness:
  "lastContentChange exampleTree1 \<le> 1
   \<and> DumpDiff exampleHash (SetViewID_tree exampleTree1 5) 1 = []
   \<and> ApplyDiff exampleHash exampleTree2 (DumpDiff exampleHash (SetViewID_tree exampleTree1 5) 1)
       = Inr exampleTree2
   \<and> DumpDiff exampleHash exampleTree1 0 \<noteq> []
   \<and> ApplyDiff exampleHash exampleTree2 (DumpDiff exampleHash exampleTree1 0) = Inr exampleTree1"
proof -
  have graft: "ApplyDiff exampleHash exampleTree2 (DumpDiff exampleHash exampleTree1 0) = Inr exampleTree1"
    by code_simp
  have le: "lastContentChange exampleTree1 \<le> 1"
    by code_simp
  have ne: "DumpDiff exampleHash exampleTree1 0 \<noteq> []"
    by code_simp
  from ApplyDiff_empty_diff [of exampleHash exampleTree2 exampleTree1 1 5] le
  have "DumpDiff exampleHash (SetViewID_tree exampleTree1 5) 1 = []"
    by simp
  then show ?thesis
    using le ne graft by (simp add: ApplyDiff_def)
qed

end
